theory Spec2Isabelle
  imports Complex_Main "HOL-Library.Multiset"
begin

section \<open>Python values and errors\<close>

text \<open>
  The simulation engine is \<^verbatim>\<open>script/research/lotterysim/core/lottery.py\<close>, the
  explorer front end is \<^verbatim>\<open>script/research/blockchain-explorer/site/app.py\<close>.
  A Python float is a real number (the value it denotes); the arithmetic of the engine
  on floats, which rounds, is not real arithmetic: it is a parameter of the model
  (\<open>float_add\<close>, \<open>float_div\<close> below). Python integers are \<open>int\<close> or \<open>nat\<close>. Every exception the engine can
  raise is a value of \<open>error\<close>; an \<open>IndexError\<close> carries the subscript expression that
  raised it.
\<close>

datatype index_site =
    Rewards_last      \<comment> \<open>\<^verbatim>\<open>self.rewards[-1]\<close>\<close>
  | Rewards_resync    \<comment> \<open>\<^verbatim>\<open>self.rewards[resync_reward_id]\<close>\<close>
  | Won_hist_last     \<comment> \<open>\<^verbatim>\<open>won_hist[-1]\<close>\<close>
  | Won_hist_resync   \<comment> \<open>\<^verbatim>\<open>won_hist[resync_slot_id]\<close>\<close>
  | Darkies_index     \<comment> \<open>\<^verbatim>\<open>self.darkies[darkie_winning_idx]\<close>\<close>

datatype error =
    AssertionError
  | IndexError index_site
  | ZeroDivisionError
  | UnboundLocalError
  | ValueError
  | OverflowError

text \<open>Python subscripting \<^verbatim>\<open>xs[i]\<close>: a negative index counts from the end.\<close>

definition py_get :: "'a list \<Rightarrow> int \<Rightarrow> 'a option" where
  "py_get xs i =
     (let n = int (length xs); j = (if i < 0 then n + i else i)
      in if 0 \<le> j \<and> j < n then Some (xs ! nat j) else None)"

text \<open>\<^verbatim>\<open>xs[-1]\<close>.\<close>

definition py_last :: "'a list \<Rightarrow> 'a option" where
  "py_last xs = (case xs of [] \<Rightarrow> None | _ \<Rightarrow> Some (last xs))"

text \<open>
  The builtin \<^verbatim>\<open>round(x, 1)\<close>: the nearest multiple of one tenth, a tie going to the
  even one.
\<close>

definition round_half_even :: "real \<Rightarrow> int" where
  "round_half_even x =
     (let f = \<lfloor>x\<rfloor>; d = x - of_int f
      in if d < 1 / 2 then f else if 1 / 2 < d then f + 1
         else if even f then f else f + 1)"

definition round1 :: "real \<Rightarrow> real" where
  "round1 x = of_int (round_half_even (x * 10)) / 10"

text \<open>\<^verbatim>\<open>int(a / b)\<close> for integers \<open>a\<close> and \<open>b > 0\<close>: true division, then truncation
  towards zero.\<close>

definition int_truediv :: "int \<Rightarrow> nat \<Rightarrow> int" where
  "int_truediv a b = (if a < 0 then - ((- a) div int b) else a div int b)"

section \<open>The resynchronisation window\<close>

text \<open>
  \<^verbatim>\<open>
  merge_length = 0
  for i in reversed(self.winners[:-1]):
      if i !=1:
          merge_length+=1
      else:
          break
  \<close>
\<close>

fun merge_scan :: "nat list \<Rightarrow> nat \<Rightarrow> nat" where
  "merge_scan [] m = m"
| "merge_scan (w # ws) m = (if w \<noteq> 1 then merge_scan ws (m + 1) else m)"

definition merge_length :: "nat list \<Rightarrow> nat" where
  "merge_length ws = merge_scan (rev (butlast ws)) 0"

text \<open>The slot that the resync loop resolves at slot \<open>cnt\<close> (the loop variable
  \<^verbatim>\<open>count\<close>) and offset \<open>i\<close>: \<^verbatim>\<open>resync_slot_id = count-(i+1)\<close>.\<close>

definition resync_slot_id :: "nat \<Rightarrow> nat \<Rightarrow> int" where
  "resync_slot_id cnt i = int cnt - (int i + 1)"

section \<open>Participants, controllers and the random source\<close>

text \<open>
  \<^verbatim>\<open>core/darkie.py\<close>, \<^verbatim>\<open>pid/cascade.py\<close>, the constant \<^verbatim>\<open>EPOCH_LENGTH\<close> and the
  class \<^verbatim>\<open>Num\<close> are imported by \<^verbatim>\<open>lottery.py\<close> and defined in files that are not
  among those verified here, so the engine is modelled over any implementation of them: \<open>'d\<close> is the state of
  a \<^verbatim>\<open>Darkie\<close> object, \<open>'s\<close> and \<open>'p\<close> the states of the secondary and the primary
  controller, \<open>'g\<close> the state of Python's \<^verbatim>\<open>random\<close> module. A method that mutates its
  object returns the new state; \<^verbatim>\<open>Darkie.run\<close> may draw random numbers, so it threads the
  random state. \<open>randbits\<close> is one raw draw of the generator. \<open>float_add\<close> and
  \<open>float_div\<close> are the machine's float addition and division (\<^verbatim>\<open>+\<close>, \<^verbatim>\<open>+=\<close> and \<^verbatim>\<open>/\<close>
  on floats): the exact result rounded to a float.
\<close>

record ('d, 's, 'p, 'g) env =
  EPOCH_LENGTH :: nat
  stake :: "'d \<Rightarrow> real"
  won_hist :: "'d \<Rightarrow> bool list"
  set_sigma_feedback :: "real \<Rightarrow> nat \<Rightarrow> real \<Rightarrow> nat \<Rightarrow> bool \<Rightarrow> 'd \<Rightarrow> 'd"
  run :: "bool \<Rightarrow> 'd \<Rightarrow> 'g \<Rightarrow> 'd \<times> 'g"
  update_stake :: "real \<Rightarrow> 'd \<Rightarrow> 'd"
  resync_stake :: "real \<Rightarrow> 'd \<Rightarrow> 'd"
  staked_tokens_ratio :: "'d \<Rightarrow> real"
  apy_scaled_to_runningtime :: "real list \<Rightarrow> 'd \<Rightarrow> real"
  apr_scaled_to_runningtime :: "'d \<Rightarrow> real"
  to_Num :: "real \<Rightarrow> real"
  secondary_pid_clipped :: "real \<Rightarrow> bool \<Rightarrow> 's \<Rightarrow> real \<times> 's"
  secondary_acc :: "'s \<Rightarrow> real"
  secondary_acc_percentage :: "'s \<Rightarrow> real"
  primary_pid_clipped :: "real \<Rightarrow> bool \<Rightarrow> 'p \<Rightarrow> real \<times> 'p"
  randbits :: "'g \<Rightarrow> nat \<times> 'g"
  float_add :: "real \<Rightarrow> real \<Rightarrow> real"
  float_div :: "real \<Rightarrow> real \<Rightarrow> real"

text \<open>\<^verbatim>\<open>random._randbelow(n)\<close>: a draw in \<open>[0, n)\<close>.\<close>

definition randbelow :: "('d, 's, 'p, 'g) env \<Rightarrow> nat \<Rightarrow> 'g \<Rightarrow> nat \<times> 'g" where
  "randbelow E n g = (let (x, g') = randbits E g in (x mod n, g'))"

text \<open>\<^verbatim>\<open>random.randint(a, b)\<close>: raises \<^verbatim>\<open>ValueError\<close> on an empty range.\<close>

definition randint :: "('d, 's, 'p, 'g) env \<Rightarrow> int \<Rightarrow> int \<Rightarrow> 'g \<Rightarrow> error + int \<times> 'g" where
  "randint E a b g =
     (if b < a then Inl ValueError
      else let (x, g') = randbelow E (nat (b - a + 1)) g in Inr (a + int x, g'))"

text \<open>
  \<^verbatim>\<open>random.shuffle(x)\<close>, the standard library's in-place Fisher-Yates shuffle:
  \<^verbatim>\<open>
  for i in reversed(range(1, len(x))):
      j = randbelow(i + 1)
      x[i], x[j] = x[j], x[i]
  \<close>
\<close>

fun shuffle_from :: "('d, 's, 'p, 'g) env \<Rightarrow> nat \<Rightarrow> 'a list \<Rightarrow> 'g \<Rightarrow> 'a list \<times> 'g" where
  "shuffle_from E 0 xs g = (xs, g)"
| "shuffle_from E (Suc i) xs g =
     (let (j, g') = randbelow E (Suc i + 1) g
      in shuffle_from E i (xs[Suc i := xs ! j, j := xs ! Suc i]) g')"

definition shuffle :: "('d, 's, 'p, 'g) env \<Rightarrow> 'a list \<Rightarrow> 'g \<Rightarrow> 'a list \<times> 'g" where
  "shuffle E xs g = shuffle_from E (length xs - 1) xs g"

section \<open>The engine state\<close>

text \<open>
  The fields of \<^verbatim>\<open>DarkfiTable\<close> (\<^verbatim>\<open>start_time\<close> and \<^verbatim>\<open>end_time\<close>, wall-clock readings
  used only for the debug print of \<^verbatim>\<open>write\<close>, are left out). \<^verbatim>\<open>self.darkies\<close> is a list
  of references to \<^verbatim>\<open>Darkie\<close> objects: \<open>darkies\<close> holds the references and \<open>objects\<close> is
  the store they point into, so that a shuffle moves references and a method call
  updates the object wherever it sits in the list. \<open>random_state\<close> is the state of the
  \<^verbatim>\<open>random\<close> module.
\<close>

record ('d, 's, 'p, 'g) table =
  Sigma :: real
  darkies :: "nat list"
  running_time :: int
  secondary_pid :: 's
  primary_pid :: 'p
  debug :: bool
  rewards :: "real list"
  winners :: "nat list"
  objects :: "nat \<Rightarrow> 'd"
  random_state :: 'g

text \<open>The local variables of \<^verbatim>\<open>background\<close> that live across loop iterations.
  \<^verbatim>\<open>acc\<close> is unbound until the first epoch boundary assigns it; \<^verbatim>\<open>total_stake\<close> is
  assigned in every iteration before it is read.\<close>

record locals =
  feedback :: nat
  acc_local :: "real option"
  total_stake :: real

text \<open>\<^verbatim>\<open>__init__\<close>, given the two controllers it constructs, and \<^verbatim>\<open>add_darkie\<close>.\<close>

definition init_table ::
  "real \<Rightarrow> int \<Rightarrow> 's \<Rightarrow> 'p \<Rightarrow> bool \<Rightarrow> (nat \<Rightarrow> 'd) \<Rightarrow> 'g \<Rightarrow> ('d, 's, 'p, 'g) table" where
  "init_table airdrop rt sec prim dbg h g =
     \<lparr>Sigma = airdrop, darkies = [], running_time = rt, secondary_pid = sec,
      primary_pid = prim, debug = dbg, rewards = [], winners = [],
      objects = h, random_state = g\<rparr>"

definition add_darkie :: "nat \<Rightarrow> ('d, 's, 'p, 'g) table \<Rightarrow> ('d, 's, 'p, 'g) table" where
  "add_darkie darkie T = T\<lparr>darkies := darkies T @ [darkie]\<rparr>"

section \<open>One slot of \<^verbatim>\<open>DarkfiTable.background\<close>\<close>

text \<open>\<^verbatim>\<open>f = self.secondary_pid.pid_clipped(float(feedback), debug)\<close>\<close>

definition secondary_step ::
  "('d, 's, 'p, 'g) env \<Rightarrow> ('d, 's, 'p, 'g) table \<Rightarrow> locals \<Rightarrow> real \<times> ('d, 's, 'p, 'g) table" where
  "secondary_step E T L =
     (let (f, s') = secondary_pid_clipped E (real (feedback L)) (debug T) (secondary_pid T)
      in (f, T\<lparr>secondary_pid := s'\<rparr>))"

text \<open>
  \<^verbatim>\<open>count%EPOCH_LENGTH == 0\<close>. \<^verbatim>\<open>count\<close> comes out of \<^verbatim>\<open>np.arange\<close>, and the remainder
  of a numpy integer by zero is zero (with a warning), not an exception.
\<close>

definition is_epoch_boundary :: "('d, 's, 'p, 'g) env \<Rightarrow> nat \<Rightarrow> bool" where
  "is_epoch_boundary E cnt =
     (if EPOCH_LENGTH E = 0 then True else cnt mod EPOCH_LENGTH E = 0)"

text \<open>
  \<^verbatim>\<open>
  if count%EPOCH_LENGTH == 0:
      acc = self.secondary_pid.acc()
      reward = self.primary_pid.pid_clipped(acc, debug)
      self.rewards += [reward]
  \<close>
\<close>

definition epoch_boundary ::
  "('d, 's, 'p, 'g) env \<Rightarrow> nat \<Rightarrow> ('d, 's, 'p, 'g) table \<Rightarrow> locals
     \<Rightarrow> ('d, 's, 'p, 'g) table \<times> locals" where
  "epoch_boundary E cnt T L =
     (if is_epoch_boundary E cnt then
        (let a = secondary_acc E (secondary_pid T);
             (reward, p') = primary_pid_clipped E a (debug T) (primary_pid T)
         in (T\<lparr>primary_pid := p', rewards := rewards T @ [reward]\<rparr>, L\<lparr>acc_local := Some a\<rparr>))
      else (T, L))"

text \<open>
  \<^verbatim>\<open>
  total_stake = 0
  for i in range(len(self.darkies)):
      self.darkies[i].set_sigma_feedback(self.Sigma, feedback, f, count, hp)
      self.darkies[i].run(hp)
      total_stake += self.darkies[i].stake
  \<close>
  The triple is the object store, the random state and \<^verbatim>\<open>total_stake\<close>.
\<close>

fun run_darkies ::
  "('d, 's, 'p, 'g) env \<Rightarrow> real \<Rightarrow> nat \<Rightarrow> real \<Rightarrow> nat \<Rightarrow> bool \<Rightarrow> nat list
     \<Rightarrow> (nat \<Rightarrow> 'd) \<times> 'g \<times> real \<Rightarrow> (nat \<Rightarrow> 'd) \<times> 'g \<times> real" where
  "run_darkies E S fb f cnt hp [] (h, g, tot) = (h, g, tot)"
| "run_darkies E S fb f cnt hp (a # as) (h, g, tot) =
     (let h1 = h(a := set_sigma_feedback E S fb f cnt hp (h a));
          (d, g') = run E hp (h1 a) g;
          h2 = h1(a := d)
      in run_darkies E S fb f cnt hp as (h2, g', float_add E tot (stake E (h2 a))))"

text \<open>
  \<^verbatim>\<open>
  for i in range(len(self.darkies)):
      winners += self.darkies[i].won_hist[-1]
  \<close>
\<close>

fun count_winners ::
  "('d, 's, 'p, 'g) env \<Rightarrow> (nat \<Rightarrow> 'd) \<Rightarrow> nat list \<Rightarrow> nat \<Rightarrow> error + nat" where
  "count_winners E h [] w = Inr w"
| "count_winners E h (a # as) w =
     (case py_last (won_hist E (h a)) of
        None \<Rightarrow> Inl (IndexError Won_hist_last)
      | Some b \<Rightarrow> count_winners E h as (w + (if b then 1 else 0)))"

text \<open>
  \<^verbatim>\<open>
  for i in range(len(self.darkies)):
      if self.darkies[i].won_hist[-1]:
          self.darkies[i].update_stake(self.rewards[-1])
          break
  \<close>
\<close>

fun pay_winner ::
  "('d, 's, 'p, 'g) env \<Rightarrow> real list \<Rightarrow> nat list \<Rightarrow> (nat \<Rightarrow> 'd) \<Rightarrow> error + (nat \<Rightarrow> 'd)" where
  "pay_winner E rs [] h = Inr h"
| "pay_winner E rs (a # as) h =
     (case py_last (won_hist E (h a)) of
        None \<Rightarrow> Inl (IndexError Won_hist_last)
      | Some b \<Rightarrow>
          if b then
            (case py_last rs of
               None \<Rightarrow> Inl (IndexError Rewards_last)
             | Some r \<Rightarrow> Inr (h(a := update_stake E r (h a))))
          else pay_winner E rs as h)"

text \<open>The payout of a finalizing slot: the loop above, then
  \<^verbatim>\<open>self.Sigma += self.rewards[-1]\<close>.\<close>

definition payout ::
  "('d, 's, 'p, 'g) env \<Rightarrow> ('d, 's, 'p, 'g) table \<Rightarrow> error + ('d, 's, 'p, 'g) table" where
  "payout E T =
     (case pay_winner E (rewards T) (darkies T) (objects T) of
        Inl e \<Rightarrow> Inl e
      | Inr h \<Rightarrow>
          (case py_last (rewards T) of
             None \<Rightarrow> Inl (IndexError Rewards_last)
           | Some r \<Rightarrow> Inr (T\<lparr>objects := h, Sigma := float_add E (Sigma T) r\<rparr>)))"

text \<open>
  \<^verbatim>\<open>
  darkie_winning_idx = 0
  for darkie_idx in range(len(self.darkies)):
      if self.darkies[darkie_idx].won_hist[resync_slot_id]:
          darkie_winning_idx = darkie_idx
          break
  \<close>
  The last argument is the index of the head of the list still to scan.
\<close>

fun find_winning ::
  "('d, 's, 'p, 'g) env \<Rightarrow> (nat \<Rightarrow> 'd) \<Rightarrow> int \<Rightarrow> nat list \<Rightarrow> nat \<Rightarrow> error + nat" where
  "find_winning E h s [] k = Inr 0"
| "find_winning E h s (a # as) k =
     (case py_get (won_hist E (h a)) s of
        None \<Rightarrow> Inl (IndexError Won_hist_resync)
      | Some b \<Rightarrow> if b then Inr k else find_winning E h s as (Suc k))"

text \<open>
  \<^verbatim>\<open>resync_reward_id = int((resync_slot_id)/EPOCH_LENGTH)\<close>. With \<^verbatim>\<open>EPOCH_LENGTH\<close> zero
  the numpy quotient is infinite or not a number, and \<^verbatim>\<open>int\<close> raises.
\<close>

definition resync_reward_id :: "('d, 's, 'p, 'g) env \<Rightarrow> int \<Rightarrow> error + int" where
  "resync_reward_id E s =
     (if EPOCH_LENGTH E = 0 then Inl (if s = 0 then ValueError else OverflowError)
      else Inr (int_truediv s (EPOCH_LENGTH E)))"

text \<open>
  One iteration of \<^verbatim>\<open>for i in range(merge_length)\<close>:
  \<^verbatim>\<open>
  resync_slot_id = count-(i+1)
  resync_reward_id = int((resync_slot_id)/EPOCH_LENGTH)
  resync_reward = self.rewards[resync_reward_id]
  darkie_winning_idx = 0
  random.shuffle(self.darkies)
  for darkie_idx in range(len(self.darkies)): ...
  self.darkies[darkie_winning_idx].resync_stake(resync_reward)
  self.Sigma += resync_reward
  \<close>
\<close>

definition resync_step ::
  "('d, 's, 'p, 'g) env \<Rightarrow> nat \<Rightarrow> nat \<Rightarrow> ('d, 's, 'p, 'g) table
     \<Rightarrow> error + ('d, 's, 'p, 'g) table" where
  "resync_step E cnt i T =
     (case resync_reward_id E (resync_slot_id cnt i) of
        Inl e \<Rightarrow> Inl e
      | Inr rid \<Rightarrow>
          (case py_get (rewards T) rid of
             None \<Rightarrow> Inl (IndexError Rewards_resync)
           | Some resync_reward \<Rightarrow>
               (let (ds, g) = shuffle E (darkies T) (random_state T)
                in case find_winning E (objects T) (resync_slot_id cnt i) ds 0 of
                     Inl e \<Rightarrow> Inl e
                   | Inr idx \<Rightarrow>
                       if length ds \<le> idx then Inl (IndexError Darkies_index)
                       else Inr (T\<lparr>darkies := ds, random_state := g,
                                  objects := (objects T)
                                    (ds ! idx := resync_stake E resync_reward (objects T (ds ! idx))),
                                  Sigma := float_add E (Sigma T) resync_reward\<rparr>))))"

fun resync_loop ::
  "('d, 's, 'p, 'g) env \<Rightarrow> nat \<Rightarrow> nat list \<Rightarrow> ('d, 's, 'p, 'g) table
     \<Rightarrow> error + ('d, 's, 'p, 'g) table" where
  "resync_loop E cnt [] T = Inr T"
| "resync_loop E cnt (i # is) T =
     (case resync_step E cnt i T of
        Inl e \<Rightarrow> Inl e
      | Inr T' \<Rightarrow> resync_loop E cnt is T')"

text \<open>The body of \<^verbatim>\<open>if self.winners[-1]==1:\<close>, and the conditional itself.\<close>

definition finalize ::
  "('d, 's, 'p, 'g) env \<Rightarrow> nat \<Rightarrow> ('d, 's, 'p, 'g) table \<Rightarrow> error + ('d, 's, 'p, 'g) table" where
  "finalize E cnt T =
     (case payout E T of
        Inl e \<Rightarrow> Inl e
      | Inr T' \<Rightarrow> resync_loop E cnt [0..<merge_length (winners T')] T')"

definition finalization ::
  "('d, 's, 'p, 'g) env \<Rightarrow> nat \<Rightarrow> ('d, 's, 'p, 'g) table \<Rightarrow> error + ('d, 's, 'p, 'g) table" where
  "finalization E cnt T =
     (if py_last (winners T) = Some 1 then finalize E cnt T else Inr T)"

text \<open>
  The loop body up to and including the finalization: the feedback update, the epoch
  boundary, the per-participant update, the winner aggregation
  (\<^verbatim>\<open>self.winners +=[winners]\<close>, \<^verbatim>\<open>feedback = winners\<close>) and the finalization.
\<close>

definition update_phase ::
  "('d, 's, 'p, 'g) env \<Rightarrow> bool \<Rightarrow> nat \<Rightarrow> ('d, 's, 'p, 'g) table \<times> locals
     \<Rightarrow> ('d, 's, 'p, 'g) table \<times> locals" where
  "update_phase E hp cnt s =
     (let (T, L) = s;
          (f, T1) = secondary_step E T L;
          (T2, L2) = epoch_boundary E cnt T1 L;
          (h, g, tot) = run_darkies E (Sigma T2) (feedback L2) f cnt hp (darkies T2)
                          (objects T2, random_state T2, 0)
      in (T2\<lparr>objects := h, random_state := g\<rparr>, L2\<lparr>total_stake := tot\<rparr>))"

definition aggregate ::
  "('d, 's, 'p, 'g) env \<Rightarrow> ('d, 's, 'p, 'g) table \<times> locals
     \<Rightarrow> error + ('d, 's, 'p, 'g) table \<times> locals" where
  "aggregate E s =
     (let (T, L) = s
      in case count_winners E (objects T) (darkies T) 0 of
           Inl e \<Rightarrow> Inl e
         | Inr w \<Rightarrow> Inr (T\<lparr>winners := winners T @ [w]\<rparr>, L\<lparr>feedback := w\<rparr>))"

definition slot_body ::
  "('d, 's, 'p, 'g) env \<Rightarrow> bool \<Rightarrow> nat \<Rightarrow> ('d, 's, 'p, 'g) table \<times> locals
     \<Rightarrow> error + ('d, 's, 'p, 'g) table \<times> locals" where
  "slot_body E hp cnt s =
     (case aggregate E (update_phase E hp cnt s) of
        Inl e \<Rightarrow> Inl e
      | Inr (T, L) \<Rightarrow>
          (case finalization E cnt T of
             Inl e \<Rightarrow> Inl e
           | Inr T' \<Rightarrow> Inr (T', L)))"

text \<open>
  The end of the loop body: the progress line reads \<^verbatim>\<open>acc\<close> (its text goes to the
  progress bar only), then
  \<^verbatim>\<open>assert(round(total_stake,1) <= round(self.Sigma,1))\<close>.
  Both operands are float sums (\<open>float_add\<close>): \<^verbatim>\<open>total_stake\<close> as the per-participant
  update accumulated it, \<^verbatim>\<open>self.Sigma\<close> as the payout and the resync left it.
\<close>

definition stake_check :: "('d, 's, 'p, 'g) table \<times> locals \<Rightarrow> bool" where
  "stake_check s = (round1 (total_stake (snd s)) \<le> round1 (Sigma (fst s)))"

definition slot_check ::
  "('d, 's, 'p, 'g) table \<times> locals \<Rightarrow> error + ('d, 's, 'p, 'g) table \<times> locals" where
  "slot_check s =
     (case acc_local (snd s) of
        None \<Rightarrow> Inl UnboundLocalError
      | Some a \<Rightarrow> if stake_check s then Inr s else Inl AssertionError)"

definition slot ::
  "('d, 's, 'p, 'g) env \<Rightarrow> bool \<Rightarrow> nat \<Rightarrow> ('d, 's, 'p, 'g) table \<times> locals
     \<Rightarrow> error + ('d, 's, 'p, 'g) table \<times> locals" where
  "slot E hp cnt s =
     (case slot_body E hp cnt s of
        Inl e \<Rightarrow> Inl e
      | Inr s' \<Rightarrow> slot_check s')"

section \<open>The run\<close>

text \<open>\<^verbatim>\<open>for count in rt_range:\<close> over the given slot indices; an exception ends it.\<close>

fun slot_loop ::
  "('d, 's, 'p, 'g) env \<Rightarrow> bool \<Rightarrow> nat list \<Rightarrow> ('d, 's, 'p, 'g) table \<times> locals
     \<Rightarrow> error + ('d, 's, 'p, 'g) table \<times> locals" where
  "slot_loop E hp [] s = Inr s"
| "slot_loop E hp (c # cs) s =
     (case slot E hp c s of
        Inl e \<Rightarrow> Inl e
      | Inr s' \<Rightarrow> slot_loop E hp cs s')"

text \<open>The builtin \<^verbatim>\<open>sum\<close>: it starts from 0 and adds the elements from left to right.\<close>

definition py_sum :: "('d, 's, 'p, 'g) env \<Rightarrow> real list \<Rightarrow> real" where
  "py_sum E xs = foldl (float_add E) 0 xs"

text \<open>The summaries. Python's \<^verbatim>\<open>/\<close> raises \<^verbatim>\<open>ZeroDivisionError\<close> when \<^verbatim>\<open>len(...)\<close> is
  zero.\<close>

definition py_truediv :: "('d, 's, 'p, 'g) env \<Rightarrow> real \<Rightarrow> nat \<Rightarrow> error + real" where
  "py_truediv E a n =
     (if n = 0 then Inl ZeroDivisionError else Inr (float_div E a (real n)))"

definition avg_reward :: "('d, 's, 'p, 'g) env \<Rightarrow> ('d, 's, 'p, 'g) table \<Rightarrow> error + real" where
  "avg_reward E T = py_truediv E (py_sum E (rewards T)) (length (rewards T))"

definition avg_apy :: "('d, 's, 'p, 'g) env \<Rightarrow> ('d, 's, 'p, 'g) table \<Rightarrow> error + real" where
  "avg_apy E T =
     (case py_truediv E
             (py_sum E (map (\<lambda>a. apy_scaled_to_runningtime E (rewards T) (objects T a)) (darkies T)))
             (length (darkies T)) of
        Inl e \<Rightarrow> Inl e
      | Inr x \<Rightarrow> Inr (to_Num E x))"

definition avg_apr :: "('d, 's, 'p, 'g) env \<Rightarrow> ('d, 's, 'p, 'g) table \<Rightarrow> error + real" where
  "avg_apr E T =
     (case py_truediv E
             (py_sum E (map (\<lambda>a. apr_scaled_to_runningtime E (objects T a)) (darkies T)))
             (length (darkies T)) of
        Inl e \<Rightarrow> Inl e
      | Inr x \<Rightarrow> Inr (to_Num E x))"

definition avg_stake_ratio :: "('d, 's, 'p, 'g) env \<Rightarrow> ('d, 's, 'p, 'g) table \<Rightarrow> error + real" where
  "avg_stake_ratio E T =
     py_truediv E (py_sum E (map (\<lambda>a. staked_tokens_ratio E (objects T a)) (darkies T)))
       (length (darkies T))"

text \<open>
  The code after the loop:
  \<^verbatim>\<open>
  avg_reward = sum(self.rewards)/len(self.rewards)
  stake_ratio = self.avg_stake_ratio()
  avg_apy = self.avg_apy()
  avg_apr = self.avg_apr()
  return self.secondary_pid.acc_percentage(), avg_apy, avg_reward, stake_ratio, avg_apr
  \<close>
\<close>

definition summary ::
  "('d, 's, 'p, 'g) env \<Rightarrow> ('d, 's, 'p, 'g) table
     \<Rightarrow> error + real \<times> real \<times> real \<times> real \<times> real" where
  "summary E T =
     (case avg_reward E T of
        Inl e \<Rightarrow> Inl e
      | Inr reward \<Rightarrow>
          (case avg_stake_ratio E T of
             Inl e \<Rightarrow> Inl e
           | Inr ratio \<Rightarrow>
               (case avg_apy E T of
                  Inl e \<Rightarrow> Inl e
                | Inr apy \<Rightarrow>
                    (case avg_apr E T of
                       Inl e \<Rightarrow> Inl e
                     | Inr apr \<Rightarrow>
                         Inr (secondary_acc_percentage E (secondary_pid T),
                              apy, reward, ratio, apr)))))"

text \<open>The slots of a run, \<^verbatim>\<open>np.arange(0,self.running_time, 1)\<close>, and the local variables
  at the start of the loop.\<close>

definition rt_range :: "int \<Rightarrow> nat list" where
  "rt_range rt = [0..<nat rt]"

definition locals0 :: locals where
  "locals0 = \<lparr>feedback = 0, acc_local = None, total_stake = 0\<rparr>"

text \<open>
  \<^verbatim>\<open>self.debug=debug\<close>, then the running time:
  \<^verbatim>\<open>random.randint(1,self.running_time) if rand_running_time else self.running_time\<close>.
\<close>

definition draw_running_time ::
  "('d, 's, 'p, 'g) env \<Rightarrow> bool \<Rightarrow> bool \<Rightarrow> ('d, 's, 'p, 'g) table
     \<Rightarrow> error + ('d, 's, 'p, 'g) table" where
  "draw_running_time E rand_running_time dbg T =
     (if rand_running_time then
        (case randint E 1 (running_time T) (random_state T) of
           Inl e \<Rightarrow> Inl e
         | Inr (rt, g) \<Rightarrow> Inr (T\<lparr>debug := dbg, running_time := rt, random_state := g\<rparr>))
      else Inr (T\<lparr>debug := dbg\<rparr>))"

text \<open>\<^verbatim>\<open>background(rand_running_time, debug, hp)\<close>: the returned tuple and the table as
  the run leaves it.\<close>

definition background ::
  "('d, 's, 'p, 'g) env \<Rightarrow> bool \<Rightarrow> bool \<Rightarrow> bool \<Rightarrow> ('d, 's, 'p, 'g) table
     \<Rightarrow> error + (real \<times> real \<times> real \<times> real \<times> real) \<times> ('d, 's, 'p, 'g) table" where
  "background E rand_running_time dbg hp T =
     (case draw_running_time E rand_running_time dbg T of
        Inl e \<Rightarrow> Inl e
      | Inr T0 \<Rightarrow>
          (case slot_loop E hp (rt_range (running_time T0)) (T0, locals0) of
             Inl e \<Rightarrow> Inl e
           | Inr (T', L') \<Rightarrow>
               (case summary E T' of
                  Inl e \<Rightarrow> Inl e
                | Inr res \<Rightarrow> Inr (res, T'))))"

text \<open>\<^verbatim>\<open>write\<close>: the calls \<^verbatim>\<open>darkie.write(id)\<close> of
  \<^verbatim>\<open>for id, darkie in enumerate(self.darkies)\<close>, as pairs of the id and the participant.\<close>

definition write_calls :: "('d, 's, 'p, 'g) table \<Rightarrow> (nat \<times> nat) list" where
  "write_calls T = zip [0..<length (darkies T)] (darkies T)"

section \<open>The explorer's search endpoint\<close>

text \<open>
  \<^verbatim>\<open>rpc.py\<close> and the templates are not among the files verified here: the three lookups
  and \<^verbatim>\<open>render_template\<close> are parameters, each returning its result or the exception it
  raised. An exception is an HTTP error with its status code (what \<^verbatim>\<open>flask.abort\<close>
  raises), any other subclass of \<^verbatim>\<open>Exception\<close>, or an exception that is not a subclass
  of \<^verbatim>\<open>Exception\<close> (\<^verbatim>\<open>KeyboardInterrupt\<close>, a cancellation), which \<^verbatim>\<open>except Exception\<close>
  does not catch.
\<close>

datatype exn = HTTPException nat | OtherException string | BaseException string

definition is_Exception :: "exn \<Rightarrow> bool" where
  "is_Exception e = (case e of BaseException msg \<Rightarrow> False | _ \<Rightarrow> True)"

text \<open>What \<^verbatim>\<open>render_template\<close> is called with: the template and its context.\<close>

datatype ('b, 't, 'x) template =
    Block_html 'b 't
  | Transaction_html 'x
  | Html_404
  | Html_500

text \<open>\<open>'h\<close> is a rendered page.\<close>

record ('b, 't, 'x, 'h) site =
  get_block :: "string \<Rightarrow> exn + 'b"
  get_block_transactions :: "string \<Rightarrow> exn + 't"
  get_transaction :: "string \<Rightarrow> exn + 'x"
  render_template :: "('b, 't, 'x) template \<Rightarrow> exn + 'h"

text \<open>
  The body of the \<^verbatim>\<open>try\<close>:
  \<^verbatim>\<open>
  block = await rpc.get_block(search_hash)
  transactions = await rpc.get_block_transactions(search_hash)
  return render_template('block.html', block=block, transactions=transactions)
  \<close>
\<close>

definition search_block :: "('b, 't, 'x, 'h) site \<Rightarrow> string \<Rightarrow> exn + 'h" where
  "search_block S search_hash =
     (case get_block S search_hash of
        Inl e \<Rightarrow> Inl e
      | Inr block \<Rightarrow>
          (case get_block_transactions S search_hash of
             Inl e \<Rightarrow> Inl e
           | Inr transactions \<Rightarrow> render_template S (Block_html block transactions)))"

text \<open>
  The body of the \<^verbatim>\<open>except Exception\<close>:
  \<^verbatim>\<open>
  transaction = await rpc.get_transaction(search_hash)
  return render_template('transaction.html', transaction=transaction)
  \<close>
\<close>

definition search_transaction :: "('b, 't, 'x, 'h) site \<Rightarrow> string \<Rightarrow> exn + 'h" where
  "search_transaction S search_hash =
     (case get_transaction S search_hash of
        Inl e \<Rightarrow> Inl e
      | Inr transaction \<Rightarrow> render_template S (Transaction_html transaction))"

text \<open>\<^verbatim>\<open>search\<close>: the \<^verbatim>\<open>try\<close> with its handler.\<close>

definition search :: "('b, 't, 'x, 'h) site \<Rightarrow> string \<Rightarrow> exn + 'h" where
  "search S search_hash =
     (case search_block S search_hash of
        Inr page \<Rightarrow> Inr page
      | Inl e \<Rightarrow> if is_Exception e then search_transaction S search_hash else Inl e)"

text \<open>
  The two registered error handlers (both are named \<^verbatim>\<open>page_not_found\<close> in the source;
  the second is the handler for status 500):
  \<^verbatim>\<open>return render_template('404.html'), 404\<close> and
  \<^verbatim>\<open>return render_template('500.html'), 500\<close>.
\<close>

definition page_not_found :: "('b, 't, 'x, 'h) site \<Rightarrow> exn + 'h \<times> nat" where
  "page_not_found S =
     (case render_template S Html_404 of Inl e \<Rightarrow> Inl e | Inr page \<Rightarrow> Inr (page, 404))"

definition page_not_found_500 :: "('b, 't, 'x, 'h) site \<Rightarrow> exn + 'h \<times> nat" where
  "page_not_found_500 S =
     (case render_template S Html_500 of Inl e \<Rightarrow> Inl e | Inr page \<Rightarrow> Inr (page, 500))"

text \<open>
  What the client of \<^verbatim>\<open>/search\<close> receives: a page with its status, the framework's own
  page for an HTTP error that has no handler, or nothing from the application when an
  exception leaves it. Flask answers an exception that leaves a view as follows. An HTTP
  error goes to the handler registered for its status code, and is itself the response
  when there is none. Any other \<^verbatim>\<open>Exception\<close>, also one raised by a handler, goes to the
  handler for status 500. An exception raised by that handler, and one that is not an
  \<^verbatim>\<open>Exception\<close>, leaves the application.
\<close>

datatype 'h response = Response 'h nat | Default_error_page nat | Unhandled exn

definition handle_exception :: "('b, 't, 'x, 'h) site \<Rightarrow> 'h response" where
  "handle_exception S =
     (case page_not_found_500 S of
        Inr (page, status) \<Rightarrow> Response page status
      | Inl e \<Rightarrow> Unhandled e)"

definition run_handler :: "('b, 't, 'x, 'h) site \<Rightarrow> exn + 'h \<times> nat \<Rightarrow> 'h response" where
  "run_handler S r =
     (case r of
        Inr (page, status) \<Rightarrow> Response page status
      | Inl e \<Rightarrow> if is_Exception e then handle_exception S else Unhandled e)"

definition handle_user_exception :: "('b, 't, 'x, 'h) site \<Rightarrow> exn \<Rightarrow> 'h response" where
  "handle_user_exception S e =
     (case e of
        HTTPException code \<Rightarrow>
          if code = 404 then run_handler S (page_not_found S)
          else if code = 500 then run_handler S (page_not_found_500 S)
          else Default_error_page code
      | OtherException msg \<Rightarrow> handle_exception S
      | BaseException msg \<Rightarrow> Unhandled e)"

definition search_response :: "('b, 't, 'x, 'h) site \<Rightarrow> string \<Rightarrow> 'h response" where
  "search_response S search_hash =
     (case search S search_hash of
        Inr page \<Rightarrow> Response page 200
      | Inl e \<Rightarrow> handle_user_exception S e)"

section \<open>A concrete participant, controllers and random source\<close>

text \<open>
  Modelled from the spec: the \<^verbatim>\<open>Darkie\<close> class of \<^verbatim>\<open>core/darkie.py\<close>, which is not
  among the files verified here. The spec gives a participant a \<open>stake\<close> and a \<open>won_history\<close>;
  \<open>run\<close> appends exactly one boolean to the history, \<open>update_stake\<close> and \<open>resync_stake\<close>
  increase the stake by the reward. The lottery law is opaque in the spec: here a
  participant carries the outcomes it is going to draw (it loses once they are used up).
\<close>

record darkie =
  d_stake :: real
  d_won_hist :: "bool list"
  d_lottery :: "bool list"

definition darkie_run :: "darkie \<Rightarrow> darkie" where
  "darkie_run d =
     (case d_lottery d of
        [] \<Rightarrow> d\<lparr>d_won_hist := d_won_hist d @ [False]\<rparr>
      | b # bs \<Rightarrow> d\<lparr>d_won_hist := d_won_hist d @ [b], d_lottery := bs\<rparr>)"

definition darkie_pay :: "real \<Rightarrow> darkie \<Rightarrow> darkie" where
  "darkie_pay reward d = d\<lparr>d_stake := d_stake d + reward\<rparr>"

text \<open>
  Modelled from the spec: the controllers of \<^verbatim>\<open>pid/cascade.py\<close> and the constant
  \<^verbatim>\<open>EPOCH_LENGTH\<close>, which are not among the files verified here. The controllers here are
  saturated: the secondary one answers 0 for every input, the primary one answers the
  fixed issuance \<open>reward\<close>. The random source is a list of the raw draws to come (0 once
  they are used up). The float operations are the exact ones: the runs below add and
  divide small integers only, where float arithmetic does not round.
\<close>

definition list_randbits :: "nat list \<Rightarrow> nat \<times> nat list" where
  "list_randbits g = (case g of [] \<Rightarrow> (0, []) | x # xs \<Rightarrow> (x, xs))"

definition demo_env :: "nat \<Rightarrow> real \<Rightarrow> (darkie, unit, unit, nat list) env" where
  "demo_env epoch_length reward =
     \<lparr>EPOCH_LENGTH = epoch_length,
      stake = d_stake,
      won_hist = d_won_hist,
      set_sigma_feedback = (\<lambda>S fb f cnt hp d. d),
      run = (\<lambda>hp d g. (darkie_run d, g)),
      update_stake = darkie_pay,
      resync_stake = darkie_pay,
      staked_tokens_ratio = (\<lambda>d. 1),
      apy_scaled_to_runningtime = (\<lambda>rs d. 0),
      apr_scaled_to_runningtime = (\<lambda>d. 0),
      to_Num = (\<lambda>x. x),
      secondary_pid_clipped = (\<lambda>x dbg s. (0, s)),
      secondary_acc = (\<lambda>s. 0),
      secondary_acc_percentage = (\<lambda>s. 0),
      primary_pid_clipped = (\<lambda>x dbg p. (reward, p)),
      randbits = list_randbits,
      float_add = (\<lambda>x y. x + y),
      float_div = (\<lambda>x y. x / y)\<rparr>"

text \<open>
  A run of two slots with two participants of stake 100 each and an airdrop of 200:
  nobody wins slot 0, participant 0 alone wins slot 1.
\<close>

definition demo_objects :: "nat \<Rightarrow> darkie" where
  "demo_objects a =
     (if a = 0 then \<lparr>d_stake = 100, d_won_hist = [], d_lottery = [False, True]\<rparr>
      else \<lparr>d_stake = 100, d_won_hist = [], d_lottery = [False, False]\<rparr>)"

definition demo_table :: "(darkie, unit, unit, nat list) table" where
  "demo_table = add_darkie 1 (add_darkie 0 (init_table 200 2 () () False demo_objects []))"

text \<open>
  The table of a slot in which participant 0 alone has just won: the state the winner
  aggregation of that slot starts from.
\<close>

definition demo_won_objects :: "nat \<Rightarrow> darkie" where
  "demo_won_objects a =
     (if a = 0 then \<lparr>d_stake = 100, d_won_hist = [True], d_lottery = []\<rparr>
      else \<lparr>d_stake = 100, d_won_hist = [False], d_lottery = []\<rparr>)"

definition demo_won_table :: "(darkie, unit, unit, nat list) table" where
  "demo_won_table =
     \<lparr>Sigma = 200, darkies = [0, 1], running_time = 1, secondary_pid = (),
      primary_pid = (), debug = False, rewards = [10], winners = [],
      objects = demo_won_objects, random_state = []\<rparr>"

text \<open>
  Modelled from the spec: the client \<^verbatim>\<open>rpc.py\<close> and the templates, which are not among
  the files verified here. Every template renders (a rendered page is the template with
  its context). Four nodes: one that cannot be reached (every lookup raises a connection
  error), one that knows no block and no transaction of the hash (every lookup is
  answered with the HTTP error 404), one that knows the hash as a transaction only, and
  one that knows it as a block.
\<close>

definition unreachable_rpc :: "(unit, unit, unit, (unit, unit, unit) template) site" where
  "unreachable_rpc =
     \<lparr>get_block = (\<lambda>h. Inl (OtherException ''ConnectionRefusedError'')),
      get_block_transactions = (\<lambda>h. Inl (OtherException ''ConnectionRefusedError'')),
      get_transaction = (\<lambda>h. Inl (OtherException ''ConnectionRefusedError'')),
      render_template = Inr\<rparr>"

definition unknown_hash_rpc :: "(unit, unit, unit, (unit, unit, unit) template) site" where
  "unknown_hash_rpc =
     \<lparr>get_block = (\<lambda>h. Inl (HTTPException 404)),
      get_block_transactions = (\<lambda>h. Inl (HTTPException 404)),
      get_transaction = (\<lambda>h. Inl (HTTPException 404)),
      render_template = Inr\<rparr>"

definition transaction_rpc :: "(unit, unit, unit, (unit, unit, unit) template) site" where
  "transaction_rpc =
     \<lparr>get_block = (\<lambda>h. Inl (HTTPException 404)),
      get_block_transactions = (\<lambda>h. Inl (HTTPException 404)),
      get_transaction = (\<lambda>h. Inr ()),
      render_template = Inr\<rparr>"

definition block_rpc :: "(unit, unit, unit, (unit, unit, unit) template) site" where
  "block_rpc =
     \<lparr>get_block = (\<lambda>h. Inr ()),
      get_block_transactions = (\<lambda>h. Inr ()),
      get_transaction = (\<lambda>h. Inl (HTTPException 404)),
      render_template = Inr\<rparr>"

text \<open>
  Further tables of two participants, given the airdrop, the running time, and the stake
  and the lottery outcomes of each participant.
\<close>

definition demo_objects_of :: "real \<Rightarrow> bool list \<Rightarrow> real \<Rightarrow> bool list \<Rightarrow> nat \<Rightarrow> darkie" where
  "demo_objects_of stake0 lottery0 stake1 lottery1 a =
     (if a = 0 then \<lparr>d_stake = stake0, d_won_hist = [], d_lottery = lottery0\<rparr>
      else \<lparr>d_stake = stake1, d_won_hist = [], d_lottery = lottery1\<rparr>)"

definition demo_table_of ::
  "real \<Rightarrow> int \<Rightarrow> real \<Rightarrow> bool list \<Rightarrow> real \<Rightarrow> bool list
     \<Rightarrow> (darkie, unit, unit, nat list) table" where
  "demo_table_of airdrop rt stake0 lottery0 stake1 lottery1 =
     add_darkie 1 (add_darkie 0
       (init_table airdrop rt () () False (demo_objects_of stake0 lottery0 stake1 lottery1) []))"

text \<open>
  Modelled from the spec: a primary controller whose issuance differs from epoch to
  epoch, so that a payout tells which epoch it was made for: the controller counts its
  calls, and its \<open>k\<close>-th answer (from 0) is \<open>10 ^ k\<close>. Everything else is as in \<open>demo_env\<close>.
\<close>

definition counting_env :: "nat \<Rightarrow> (darkie, unit, nat, nat list) env" where
  "counting_env epoch_length =
     \<lparr>EPOCH_LENGTH = epoch_length,
      stake = d_stake,
      won_hist = d_won_hist,
      set_sigma_feedback = (\<lambda>S fb f cnt hp d. d),
      run = (\<lambda>hp d g. (darkie_run d, g)),
      update_stake = darkie_pay,
      resync_stake = darkie_pay,
      staked_tokens_ratio = (\<lambda>d. 1),
      apy_scaled_to_runningtime = (\<lambda>rs d. 0),
      apr_scaled_to_runningtime = (\<lambda>d. 0),
      to_Num = (\<lambda>x. x),
      secondary_pid_clipped = (\<lambda>x dbg s. (0, s)),
      secondary_acc = (\<lambda>s. 0),
      secondary_acc_percentage = (\<lambda>s. 0),
      primary_pid_clipped = (\<lambda>x dbg k. (10 ^ k, Suc k)),
      randbits = list_randbits,
      float_add = (\<lambda>x y. x + y),
      float_div = (\<lambda>x y. x / y)\<rparr>"

text \<open>
  A run of four slots: participant 0 alone wins slots 0 and 3, nobody wins slots 1
  and 2, so that \<^verbatim>\<open>winners\<close> is \<open>[1, 0, 0, 1]\<close> when slot 3 finalizes.
\<close>

definition counting_table :: "(darkie, unit, nat, nat list) table" where
  "counting_table =
     add_darkie 1 (add_darkie 0
       (init_table 200 4 () 0 False
          (demo_objects_of 100 [True, False, False, True] 100 []) []))"

section \<open>Properties of the resynchronisation window\<close>

lemma merge_scan_takeWhile:
  "merge_scan ws m = m + length (takeWhile (\<lambda>w. w \<noteq> 1) ws)"
  by (induction ws arbitrary: m) auto

lemma merge_length_takeWhile:
  "merge_length ws = length (takeWhile (\<lambda>w. w \<noteq> 1) (rev (butlast ws)))"
  by (simp add: merge_length_def merge_scan_takeWhile)

lemma merge_length_le: "merge_length ws \<le> length ws - 1"
  using length_takeWhile_le [of "\<lambda>w. w \<noteq> 1" "rev (butlast ws)"]
  by (simp add: merge_length_takeWhile)

section \<open>The shuffle is a permutation\<close>

lemma mset_shuffle_from:
  "i < length xs \<Longrightarrow> mset (fst (shuffle_from E i xs g)) = mset xs"
proof (induction i arbitrary: xs g)
  case 0
  then show ?case by simp
next
  case (Suc i)
  obtain x g' where r: "randbits E g = (x, g')" by (cases "randbits E g")
  let ?j = "x mod (Suc i + 1)"
  have j: "?j < length xs" using Suc.prems by (simp add: less_le_trans [OF mod_less_divisor])
  let ?ys = "xs[Suc i := xs ! ?j, ?j := xs ! Suc i]"
  have "mset ?ys = mset xs" using Suc.prems j by (simp add: mset_swap)
  moreover have "i < length ?ys" using Suc.prems by simp
  ultimately have "mset (fst (shuffle_from E i ?ys g')) = mset xs"
    using Suc.IH [of ?ys g'] by simp
  then show ?case by (simp add: randbelow_def r)
qed

lemma mset_shuffle: "mset (fst (shuffle E xs g)) = mset xs"
proof (cases xs)
  case Nil
  then show ?thesis by (simp add: shuffle_def)
next
  case (Cons y ys)
  then show ?thesis by (simp add: shuffle_def mset_shuffle_from)
qed

section \<open>What each phase of a slot changes\<close>


lemmas update_phase_unfold = update_phase_def secondary_step_def epoch_boundary_def Let_def

lemma update_phase_frame:
  "darkies (fst (update_phase E hp cnt s)) = darkies (fst s)"
  "Sigma (fst (update_phase E hp cnt s)) = Sigma (fst s)"
  "winners (fst (update_phase E hp cnt s)) = winners (fst s)"
  "running_time (fst (update_phase E hp cnt s)) = running_time (fst s)"
  by (auto simp: update_phase_unfold split: prod.splits if_splits)

lemma update_phase_rewards:
  "\<exists>new. rewards (fst (update_phase E hp cnt s)) = rewards (fst s) @ new
     \<and> length new = (if is_epoch_boundary E cnt then 1 else 0)
     \<and> ((\<forall>x d p. 0 \<le> fst (primary_pid_clipped E x d p)) \<longrightarrow> (\<forall>r\<in>set new. 0 \<le> r))"
proof (cases "is_epoch_boundary E cnt")
  case True
  then show ?thesis
    apply (simp add: update_phase_unfold split: prod.splits)
    by (metis fst_conv)
next
  case False
  then show ?thesis
    by (simp add: update_phase_unfold split: prod.splits)
qed

lemma update_phase_acc:
  "is_epoch_boundary E cnt \<Longrightarrow> acc_local (snd (update_phase E hp cnt s)) \<noteq> None"
  "\<not> is_epoch_boundary E cnt \<Longrightarrow> acc_local (snd (update_phase E hp cnt s)) = acc_local (snd s)"
  by (auto simp: update_phase_unfold split: prod.splits if_splits)

lemma aggregate_Inr:
  "aggregate E s = Inr s' \<Longrightarrow>
     \<exists>w. count_winners E (objects (fst s)) (darkies (fst s)) 0 = Inr w
       \<and> s' = ((fst s)\<lparr>winners := winners (fst s) @ [w]\<rparr>, (snd s)\<lparr>feedback := w\<rparr>)"
  by (auto simp: aggregate_def split: prod.splits sum.splits)

lemma aggregate_frame:
  assumes "aggregate E s = Inr s'"
  shows "darkies (fst s') = darkies (fst s)" "Sigma (fst s') = Sigma (fst s)"
    "rewards (fst s') = rewards (fst s)" "acc_local (snd s') = acc_local (snd s)"
    "total_stake (snd s') = total_stake (snd s)" "objects (fst s') = objects (fst s)"
  using aggregate_Inr [OF assms] by auto

lemma aggregate_error:
  "aggregate E s = Inl e \<Longrightarrow> e = IndexError Won_hist_last"
proof -
  have "count_winners E h ds w = Inl e \<Longrightarrow> e = IndexError Won_hist_last" for h ds w
    by (induction ds arbitrary: w) (auto split: option.splits)
  then show "aggregate E s = Inl e \<Longrightarrow> e = IndexError Won_hist_last"
    by (auto simp: aggregate_def split: prod.splits sum.splits)
qed

section \<open>What the finalization changes\<close>


lemma py_last_Some: "py_last xs = Some x \<longleftrightarrow> xs \<noteq> [] \<and> x = last xs"
  by (auto simp: py_last_def split: list.splits)

lemma py_last_None: "py_last xs = None \<longleftrightarrow> xs = []"
  by (auto simp: py_last_def split: list.splits)

lemma py_get_in_set: "py_get xs i = Some x \<Longrightarrow> x \<in> set xs"
  by (auto simp: py_get_def Let_def split: if_splits)

lemma pay_winner_error:
  "pay_winner E rs ds h = Inl e \<Longrightarrow>
     e = IndexError Won_hist_last \<or> (e = IndexError Rewards_last \<and> rs = [])"
  by (induction ds) (auto simp: py_last_None split: option.splits if_splits)

lemma payout_Inr:
  "payout E T = Inr T' \<Longrightarrow>
     \<exists>h. pay_winner E (rewards T) (darkies T) (objects T) = Inr h \<and> rewards T \<noteq> []
       \<and> T' = T\<lparr>objects := h, Sigma := float_add E (Sigma T) (last (rewards T))\<rparr>"
  by (auto simp: payout_def py_last_Some split: sum.splits option.splits)

lemma payout_error:
  "payout E T = Inl e \<Longrightarrow>
     e = IndexError Won_hist_last \<or> (e = IndexError Rewards_last \<and> rewards T = [])"
  by (auto simp: payout_def py_last_None split: sum.splits option.splits dest: pay_winner_error)

lemma find_winning_error:
  "find_winning E h s ds k = Inl e \<Longrightarrow> e = IndexError Won_hist_resync"
  by (induction ds arbitrary: k) (auto split: option.splits if_splits)

lemma resync_step_Inr:
  assumes "resync_step E cnt i T = Inr T'"
  shows "rewards T' = rewards T" "winners T' = winners T"
    "mset (darkies T') = mset (darkies T)"
    "\<exists>r\<in>set (rewards T). Sigma T' = float_add E (Sigma T) r"
  using assms mset_shuffle [of E "darkies T" "random_state T"]
  by (auto simp: resync_step_def split: sum.splits option.splits prod.splits if_splits
      dest: py_get_in_set)

lemma resync_step_error:
  "resync_step E cnt i T = Inl e \<Longrightarrow> e \<noteq> UnboundLocalError \<and> e \<noteq> IndexError Rewards_last
     \<and> e \<noteq> AssertionError"
  by (auto simp: resync_step_def resync_reward_id_def
      split: sum.splits option.splits prod.splits if_splits dest: find_winning_error)

lemma resync_loop_Inr:
  assumes "resync_loop E cnt is T = Inr T'"
  shows "rewards T' = rewards T \<and> winners T' = winners T
    \<and> mset (darkies T') = mset (darkies T)"
  using assms
proof (induction "is" arbitrary: T)
  case Nil
  then show ?case by simp
next
  case (Cons i "is")
  then obtain T1 where 1: "resync_step E cnt i T = Inr T1" and 2: "resync_loop E cnt is T1 = Inr T'"
    by (auto split: sum.splits)
  from resync_step_Inr [OF 1] Cons.IH [OF 2] show ?case by auto
qed

lemma resync_loop_error:
  "resync_loop E cnt is T = Inl e \<Longrightarrow> e \<noteq> UnboundLocalError \<and> e \<noteq> IndexError Rewards_last
     \<and> e \<noteq> AssertionError"
  by (induction "is" arbitrary: T) (auto split: sum.splits dest: resync_step_error)

lemma finalization_Inr:
  assumes "finalization E cnt T = Inr T'"
  shows "rewards T' = rewards T" "winners T' = winners T"
    "mset (darkies T') = mset (darkies T)"
  using assms
  by (auto simp: finalization_def finalize_def split: if_splits sum.splits
      dest!: payout_Inr resync_loop_Inr)

lemma finalization_error:
  "finalization E cnt T = Inl e \<Longrightarrow>
     e \<noteq> UnboundLocalError \<and> e \<noteq> AssertionError \<and> (rewards T \<noteq> [] \<longrightarrow> e \<noteq> IndexError Rewards_last)"
  by (auto simp: finalization_def finalize_def split: if_splits sum.splits
      dest: payout_error resync_loop_error)

section \<open>What a slot and a run change\<close>


lemma slot_body_Inr:
  assumes "slot_body E hp cnt s = Inr s'"
  shows "\<exists>s2. aggregate E (update_phase E hp cnt s) = Inr s2
           \<and> finalization E cnt (fst s2) = Inr (fst s') \<and> snd s' = snd s2"
  using assms by (auto simp: slot_body_def split: sum.splits prod.splits)

lemma slot_body_error:
  assumes "slot_body E hp cnt s = Inl e"
  shows "e \<noteq> UnboundLocalError" "e \<noteq> AssertionError"
    "is_epoch_boundary E cnt \<or> rewards (fst s) \<noteq> [] \<Longrightarrow> e \<noteq> IndexError Rewards_last"
proof -
  let ?u = "update_phase E hp cnt s"
  have cases: "aggregate E ?u = Inl e
      \<or> (\<exists>s2. aggregate E ?u = Inr s2 \<and> finalization E cnt (fst s2) = Inl e)"
    using assms by (auto simp: slot_body_def split: sum.splits prod.splits)
  show "e \<noteq> UnboundLocalError" "e \<noteq> AssertionError"
    using cases by (auto dest: aggregate_error finalization_error)
  show "e \<noteq> IndexError Rewards_last" if "is_epoch_boundary E cnt \<or> rewards (fst s) \<noteq> []"
  proof -
    obtain new where new: "rewards (fst ?u) = rewards (fst s) @ new"
      "length new = (if is_epoch_boundary E cnt then 1 else 0)"
      using update_phase_rewards [of E hp cnt s] by blast
    with that have ne: "rewards (fst ?u) \<noteq> []" by (auto split: if_splits)
    from cases show ?thesis
    proof
      assume "aggregate E ?u = Inl e"
      then show ?thesis by (auto dest: aggregate_error)
    next
      assume "\<exists>s2. aggregate E ?u = Inr s2 \<and> finalization E cnt (fst s2) = Inl e"
      then obtain s2 where a: "aggregate E ?u = Inr s2" and f: "finalization E cnt (fst s2) = Inl e"
        by blast
      from aggregate_frame(3) [OF a] ne have "rewards (fst s2) \<noteq> []" by simp
      with finalization_error [OF f] show ?thesis by simp
    qed
  qed
qed

lemma slot_body_rewards:
  assumes "slot_body E hp cnt s = Inr s'"
  shows "\<exists>new. rewards (fst s') = rewards (fst s) @ new
     \<and> length new = (if is_epoch_boundary E cnt then 1 else 0)
     \<and> ((\<forall>x d p. 0 \<le> fst (primary_pid_clipped E x d p)) \<longrightarrow> (\<forall>r\<in>set new. 0 \<le> r))"
proof -
  from slot_body_Inr [OF assms] obtain s2 where
    a: "aggregate E (update_phase E hp cnt s) = Inr s2"
    and f: "finalization E cnt (fst s2) = Inr (fst s')" by blast
  have "rewards (fst s') = rewards (fst (update_phase E hp cnt s))"
    using finalization_Inr(1) [OF f] aggregate_frame(3) [OF a] by simp
  with update_phase_rewards [of E hp cnt s] show ?thesis by simp
qed

lemma slot_body_frame:
  assumes "slot_body E hp cnt s = Inr s'"
  shows "mset (darkies (fst s')) = mset (darkies (fst s))"
    "total_stake (snd s') = total_stake (snd (update_phase E hp cnt s))"
    "acc_local (snd s') = acc_local (snd (update_phase E hp cnt s))"
    "\<exists>w. winners (fst s') = winners (fst s) @ [w] \<and> feedback (snd s') = w"
proof -
  from slot_body_Inr [OF assms] obtain s2 where
    a: "aggregate E (update_phase E hp cnt s) = Inr s2"
    and f: "finalization E cnt (fst s2) = Inr (fst s')" and l: "snd s' = snd s2" by blast
  show "mset (darkies (fst s')) = mset (darkies (fst s))"
    using finalization_Inr(3) [OF f] aggregate_frame(1) [OF a] update_phase_frame(1) [of E hp cnt s]
    by simp
  show "total_stake (snd s') = total_stake (snd (update_phase E hp cnt s))"
    using aggregate_frame(5) [OF a] l by simp
  show "acc_local (snd s') = acc_local (snd (update_phase E hp cnt s))"
    using aggregate_frame(4) [OF a] l by simp
  show "\<exists>w. winners (fst s') = winners (fst s) @ [w] \<and> feedback (snd s') = w"
    using finalization_Inr(2) [OF f] aggregate_Inr [OF a] update_phase_frame(3) [of E hp cnt s] l
    by auto
qed

lemma slot_Inr:
  "slot E hp cnt s = Inr s' \<longleftrightarrow>
     slot_body E hp cnt s = Inr s' \<and> acc_local (snd s') \<noteq> None \<and> stake_check s'"
  by (auto simp: slot_def slot_check_def split: sum.splits option.splits if_splits)

lemma slot_Inl:
  assumes "slot E hp cnt s = Inl e"
  shows "slot_body E hp cnt s = Inl e
     \<or> (\<exists>s'. slot_body E hp cnt s = Inr s' \<and> acc_local (snd s') = None \<and> e = UnboundLocalError)
     \<or> (\<exists>s'. slot_body E hp cnt s = Inr s' \<and> acc_local (snd s') \<noteq> None \<and> \<not> stake_check s'
            \<and> e = AssertionError)"
proof (cases "slot_body E hp cnt s")
  case (Inl e')
  with assms show ?thesis by (simp add: slot_def)
next
  case (Inr s')
  with assms have "slot_check s' = Inl e" by (simp add: slot_def)
  then have "(acc_local (snd s') = None \<and> e = UnboundLocalError)
      \<or> (acc_local (snd s') \<noteq> None \<and> \<not> stake_check s' \<and> e = AssertionError)"
    by (auto simp: slot_check_def split: option.splits if_splits)
  with Inr show ?thesis by blast
qed

lemma slot_loop_append:
  "slot_loop E hp (xs @ ys) s =
     (case slot_loop E hp xs s of Inl e \<Rightarrow> Inl e | Inr s' \<Rightarrow> slot_loop E hp ys s')"
  by (induction xs arbitrary: s) (auto split: sum.splits)

lemma slot_loop_snoc:
  "slot_loop E hp (xs @ [c]) s =
     (case slot_loop E hp xs s of Inl e \<Rightarrow> Inl e | Inr s' \<Rightarrow> slot E hp c s')"
  by (simp add: slot_loop_append split: sum.splits)

lemma slot_loop_take_Inr:
  assumes "slot_loop E hp cs s = Inr s'"
  shows "\<exists>sk. slot_loop E hp (take k cs) s = Inr sk \<and> slot_loop E hp (drop k cs) sk = Inr s'"
proof -
  have "slot_loop E hp (take k cs @ drop k cs) s = Inr s'" using assms by simp
  then show ?thesis unfolding slot_loop_append by (auto split: sum.splits)
qed

lemma slot_loop_take_Inl:
  assumes "slot_loop E hp (take k cs) s = Inl e"
  shows "slot_loop E hp cs s = Inl e"
proof -
  have "slot_loop E hp (take k cs @ drop k cs) s = Inl e"
    unfolding slot_loop_append using assms by simp
  then show ?thesis by simp
qed

section \<open>The stake-supply check\<close>

lemma run_darkies_other:
  "a \<notin> set as \<Longrightarrow> fst (run_darkies E S fb f cnt hp as (h, g, tot)) a = h a"
  by (induction as arbitrary: h g tot) (auto simp: Let_def split: prod.splits)

lemma run_darkies_total:
  "distinct as \<Longrightarrow> run_darkies E S fb f cnt hp as (h, g, tot) = (h', g', tot') \<Longrightarrow>
     tot' = foldl (float_add E) tot (map (\<lambda>a. stake E (h' a)) as)"
proof (induction as arbitrary: h g tot)
  case Nil
  then show ?case by simp
next
  case (Cons a as)
  let ?h1 = "h(a := set_sigma_feedback E S fb f cnt hp (h a))"
  obtain d g1 where r: "run E hp (?h1 a) g = (d, g1)" by (cases "run E hp (?h1 a) g")
  let ?h2 = "?h1(a := d)"
  from Cons.prems r
  have rec: "run_darkies E S fb f cnt hp as (?h2, g1, float_add E tot (stake E (?h2 a)))
      = (h', g', tot')"
    by (simp add: Let_def)
  from Cons.prems have "a \<notin> set as" "distinct as" by auto
  from run_darkies_other [OF this(1), of E S fb f cnt hp ?h2 g1
      "float_add E tot (stake E (?h2 a))"] rec
  have "h' a = ?h2 a" by simp
  with Cons.IH [OF \<open>distinct as\<close> rec] show ?case by simp
qed

lemma update_phase_total_stake:
  assumes "distinct (darkies (fst s))"
  shows "total_stake (snd (update_phase E hp cnt s))
     = py_sum E (map (\<lambda>a. stake E (objects (fst (update_phase E hp cnt s)) a)) (darkies (fst s)))"
proof -
  obtain T L where s: "s = (T, L)" by (cases s)
  obtain f T1 where f: "secondary_step E T L = (f, T1)" by (cases "secondary_step E T L")
  obtain T2 L2 where b: "epoch_boundary E cnt T1 L = (T2, L2)" by (cases "epoch_boundary E cnt T1 L")
  obtain h g tot where r: "run_darkies E (Sigma T2) (feedback L2) f cnt hp (darkies T2)
                          (objects T2, random_state T2, 0) = (h, g, tot)"
    by (cases "run_darkies E (Sigma T2) (feedback L2) f cnt hp (darkies T2)
                          (objects T2, random_state T2, 0)") auto
  have d: "darkies T2 = darkies T"
    using f b by (auto simp: secondary_step_def epoch_boundary_def Let_def split: prod.splits if_splits)
  have u: "update_phase E hp cnt s = (T2\<lparr>objects := h, random_state := g\<rparr>, L2\<lparr>total_stake := tot\<rparr>)"
    by (simp add: update_phase_def s f b r)
  from assms s d have "distinct (darkies T2)" by simp
  from run_darkies_total [OF this r] show ?thesis unfolding u by (simp add: s d py_sum_def)
qed

lemma slot_AssertionError:
  "slot E hp cnt s = Inl AssertionError \<longleftrightarrow>
     (\<exists>s'. slot_body E hp cnt s = Inr s' \<and> acc_local (snd s') \<noteq> None \<and> \<not> stake_check s')"
proof
  assume a: "slot E hp cnt s = Inl AssertionError"
  from slot_Inl [OF a] slot_body_error(2) [of E hp cnt s AssertionError]
  show "\<exists>s'. slot_body E hp cnt s = Inr s' \<and> acc_local (snd s') \<noteq> None \<and> \<not> stake_check s'"
    by auto
next
  assume "\<exists>s'. slot_body E hp cnt s = Inr s' \<and> acc_local (snd s') \<noteq> None \<and> \<not> stake_check s'"
  then show "slot E hp cnt s = Inl AssertionError"
    by (auto simp: slot_def slot_check_def split: option.splits)
qed

text \<open>The definitions that evaluate a run of the concrete participants.\<close>

lemmas engine_eval =
  init_table_def add_darkie_def darkie_run_def darkie_pay_def list_randbits_def locals0_def
  slot_def slot_body_def slot_check_def stake_check_def update_phase_def aggregate_def
  secondary_step_def epoch_boundary_def is_epoch_boundary_def finalization_def finalize_def
  payout_def resync_step_def resync_reward_id_def resync_slot_id_def merge_length_def
  shuffle_def randbelow_def py_last_def py_get_def round1_def round_half_even_def
  int_truediv_def Let_def

text \<open>The two-slot run of the concrete participants, evaluated.\<close>

lemma demo_run:
  "\<exists>T L. slot_loop (demo_env 2 10) False [0, 1] (demo_table, locals0) = Inr (T, L)
     \<and> darkies T = [1, 0] \<and> Sigma T = 220 \<and> rewards T = [10] \<and> winners T = [0, 1]
     \<and> d_stake (objects T 0) = 110 \<and> d_stake (objects T 1) = 110
     \<and> d_won_hist (objects T 0) = [False, True] \<and> d_won_hist (objects T 1) = [False, False]
     \<and> running_time T = 2
     \<and> L = \<lparr>feedback = 1, acc_local = Some 0, total_stake = 200\<rparr>"
  by (simp add: demo_env_def demo_table_def demo_objects_def engine_eval)

text \<open>
  One slot with stakes 105 and 100 and an airdrop of 200, won by participant 0 alone: the
  slot completes with \<open>total_stake\<close> 205 and \<open>Sigma\<close> 210, while the participants hold 115
  and 100.
\<close>

lemma overstaked_slot:
  "\<exists>T L. slot (demo_env 1 10) False 0 (demo_table_of 200 1 105 [True] 100 [False], locals0)
       = Inr (T, L)
     \<and> Sigma T = 210 \<and> total_stake L = 205
     \<and> stake (demo_env 1 10) (objects T 0) = 115 \<and> stake (demo_env 1 10) (objects T 1) = 100"
  by (simp add: demo_env_def demo_table_of_def demo_objects_of_def engine_eval)

text \<open>
  Claim C1 (stake-supply invariant), as the code has it. The end-of-slot check compares
  \<open>total_stake\<close> rounded to one decimal with \<open>Sigma\<close> rounded to one decimal, where
  \<open>total_stake\<close> is the value accumulated by the per-participant update of the slot,
  before the payout (for pairwise distinct participants: the float sum of their stakes
  at that point), and \<open>Sigma\<close> is read after the payout and the resync. A slot completes
  only if the check holds; it raises \<^verbatim>\<open>AssertionError\<close> exactly when its body completes and
  the check fails. In a run that completes the check held at the end of every slot, and
  an exception in any slot is the result of the whole run: no later slot is executed.
  The check does not bound the stakes the participants hold when it is made.
\<close>

theorem stake_supply_check:
  "(slot E hp cnt s = Inr s' \<longrightarrow>
      round1 (total_stake (snd s')) \<le> round1 (Sigma (fst s'))
      \<and> total_stake (snd s') = total_stake (snd (update_phase E hp cnt s)))
   \<and> (distinct (darkies (fst s)) \<longrightarrow>
        total_stake (snd (update_phase E hp cnt s))
          = py_sum E (map (\<lambda>a. stake E (objects (fst (update_phase E hp cnt s)) a))
              (darkies (fst s))))
   \<and> (slot E hp cnt s = Inl AssertionError \<longleftrightarrow>
        (\<exists>sb. slot_body E hp cnt s = Inr sb \<and> acc_local (snd sb) \<noteq> None
           \<and> \<not> round1 (total_stake (snd sb)) \<le> round1 (Sigma (fst sb))))
   \<and> (slot_loop E hp cs s = Inr sn \<longrightarrow>
        (\<forall>k<length cs. \<exists>sk. slot_loop E hp (take (Suc k) cs) s = Inr sk
            \<and> round1 (total_stake (snd sk)) \<le> round1 (Sigma (fst sk))))
   \<and> (slot_loop E hp (take k cs) s = Inl e \<longrightarrow> slot_loop E hp cs s = Inl e)"
proof (intro conjI impI allI)
  assume "slot E hp cnt s = Inr s'"
  then have b: "slot_body E hp cnt s = Inr s'" and c: "stake_check s'"
    by (simp_all add: slot_Inr)
  from c show "round1 (total_stake (snd s')) \<le> round1 (Sigma (fst s'))"
    by (simp add: stake_check_def)
  from slot_body_frame(2) [OF b]
  show "total_stake (snd s') = total_stake (snd (update_phase E hp cnt s))" .
next
  assume "distinct (darkies (fst s))"
  then show "total_stake (snd (update_phase E hp cnt s))
          = py_sum E (map (\<lambda>a. stake E (objects (fst (update_phase E hp cnt s)) a))
              (darkies (fst s)))"
    by (rule update_phase_total_stake)
next
  show "slot E hp cnt s = Inl AssertionError \<longleftrightarrow>
        (\<exists>sb. slot_body E hp cnt s = Inr sb \<and> acc_local (snd sb) \<noteq> None
           \<and> \<not> round1 (total_stake (snd sb)) \<le> round1 (Sigma (fst sb)))"
    by (simp add: slot_AssertionError stake_check_def)
next
  fix j
  assume run: "slot_loop E hp cs s = Inr sn" and j: "j < length cs"
  from slot_loop_take_Inr [OF run, of "Suc j"] obtain sk where
    sk: "slot_loop E hp (take (Suc j) cs) s = Inr sk" by blast
  from j have "take (Suc j) cs = take j cs @ [cs ! j]" by (simp add: take_Suc_conv_app_nth)
  with sk obtain sj where "slot E hp (cs ! j) sj = Inr sk"
    by (auto simp: slot_loop_snoc split: sum.splits)
  then have "stake_check sk" by (simp add: slot_Inr)
  with sk show "\<exists>sk. slot_loop E hp (take (Suc j) cs) s = Inr sk
            \<and> round1 (total_stake (snd sk)) \<le> round1 (Sigma (fst sk))"
    by (auto simp: stake_check_def)
next
  assume "slot_loop E hp (take k cs) s = Inl e"
  then show "slot_loop E hp cs s = Inl e" by (rule slot_loop_take_Inl)
qed

theorem stake_supply_check_witness:
  "\<exists>sn. slot_loop (demo_env 2 10) False [0, 1] (demo_table, locals0) = Inr sn
     \<and> (\<forall>k<length [0::nat, 1]. \<exists>sk.
          slot_loop (demo_env 2 10) False (take (Suc k) [0, 1]) (demo_table, locals0) = Inr sk
          \<and> round1 (total_stake (snd sk)) \<le> round1 (Sigma (fst sk)))"
proof -
  from demo_run obtain sn where
    sn: "slot_loop (demo_env 2 10) False [0, 1] (demo_table, locals0) = Inr sn" by blast
  with stake_supply_check [where E = "demo_env 2 10" and hp = False and cs = "[0, 1]"
      and s = "(demo_table, locals0)" and sn = sn]
  show ?thesis by blast
qed

text \<open>
  The claim as the spec states it fails: the slot above completes, so it has passed the
  check, while the stakes the participants hold at the check, 115 and 100, exceed the
  total supply 210 by more than the tolerance.
\<close>

theorem stake_supply_counterexample:
  "\<not> isl (slot (demo_env 1 10) False 0 (demo_table_of 200 1 105 [True] 100 [False], locals0))
   \<and> Sigma (fst (projr
        (slot (demo_env 1 10) False 0 (demo_table_of 200 1 105 [True] 100 [False], locals0))))
       = 210
   \<and> stake (demo_env 1 10) (objects (fst (projr
        (slot (demo_env 1 10) False 0 (demo_table_of 200 1 105 [True] 100 [False], locals0)))) 0)
       = 115
   \<and> stake (demo_env 1 10) (objects (fst (projr
        (slot (demo_env 1 10) False 0 (demo_table_of 200 1 105 [True] 100 [False], locals0)))) 1)
       = 100
   \<and> \<not> round1 (115 + 100) \<le> round1 210"
proof -
  from overstaked_slot obtain T L where
    r: "slot (demo_env 1 10) False 0 (demo_table_of 200 1 105 [True] 100 [False], locals0)
       = Inr (T, L)"
    and v: "Sigma T = 210" "stake (demo_env 1 10) (objects T 0) = 115"
      "stake (demo_env 1 10) (objects T 1) = 100" by blast
  have "\<not> round1 (115 + 100) \<le> round1 210"
    by (simp add: round1_def round_half_even_def)
  with v show ?thesis unfolding r by simp
qed


section \<open>Invariants of a run\<close>

lemma slot_loop_darkies:
  "slot_loop E hp cs s = Inr s' \<Longrightarrow> mset (darkies (fst s')) = mset (darkies (fst s))"
proof (induction cs arbitrary: s)
  case Nil
  then show ?case by simp
next
  case (Cons c cs)
  then obtain s1 where 1: "slot E hp c s = Inr s1" and 2: "slot_loop E hp cs s1 = Inr s'"
    by (auto split: sum.splits)
  from 1 have "slot_body E hp c s = Inr s1" by (simp add: slot_Inr)
  from slot_body_frame(1) [OF this] Cons.IH [OF 2] show ?case by simp
qed

lemma draw_running_time_frame:
  assumes "draw_running_time E r dbg T = Inr T0"
  shows "darkies T0 = darkies T" "rewards T0 = rewards T" "Sigma T0 = Sigma T"
    "r \<Longrightarrow> 1 \<le> running_time T0"
  using assms
  by (auto simp: draw_running_time_def randint_def randbelow_def Let_def
      split: if_splits sum.splits prod.splits)

lemma background_Inr:
  assumes "background E r dbg hp T = Inr (res, T')"
  shows "\<exists>T0 L'. draw_running_time E r dbg T = Inr T0
     \<and> slot_loop E hp (rt_range (running_time T0)) (T0, locals0) = Inr (T', L')
     \<and> summary E T' = Inr res"
  using assms by (auto simp: background_def split: sum.splits prod.splits)

lemma slot_sound:
  assumes "is_epoch_boundary E cnt \<or> (acc_local (snd s) \<noteq> None \<and> rewards (fst s) \<noteq> [])"
  shows "slot E hp cnt s \<noteq> Inl UnboundLocalError"
    "slot E hp cnt s \<noteq> Inl (IndexError Rewards_last)"
    "slot E hp cnt s = Inr s' \<Longrightarrow> acc_local (snd s') \<noteq> None \<and> rewards (fst s') \<noteq> []"
proof -
  have acc: "acc_local (snd (update_phase E hp cnt s)) \<noteq> None"
    using assms update_phase_acc [of E cnt hp s] by (cases "is_epoch_boundary E cnt") auto
  have rew: "is_epoch_boundary E cnt \<or> rewards (fst s) \<noteq> []" using assms by blast
  have err: "e \<noteq> UnboundLocalError \<and> e \<noteq> IndexError Rewards_last" if "slot E hp cnt s = Inl e" for e
    using slot_Inl [OF that]
  proof (elim disjE exE conjE)
    assume "slot_body E hp cnt s = Inl e"
    from slot_body_error(1) [OF this] slot_body_error(3) [OF this rew] show ?thesis by simp
  next
    fix s1 assume "slot_body E hp cnt s = Inr s1" "acc_local (snd s1) = None"
    with slot_body_frame(3) [of E hp cnt s s1] acc show ?thesis by simp
  next
    fix s1 assume "e = AssertionError"
    then show ?thesis by simp
  qed
  from err show "slot E hp cnt s \<noteq> Inl UnboundLocalError" by blast
  from err show "slot E hp cnt s \<noteq> Inl (IndexError Rewards_last)" by blast
  show "acc_local (snd s') \<noteq> None \<and> rewards (fst s') \<noteq> []" if "slot E hp cnt s = Inr s'"
  proof -
    from that have b: "slot_body E hp cnt s = Inr s'" and a: "acc_local (snd s') \<noteq> None"
      by (simp_all add: slot_Inr)
    from slot_body_rewards [OF b] rew have "rewards (fst s') \<noteq> []" by (auto split: if_splits)
    with a show ?thesis by simp
  qed
qed

lemma slot_loop_sound:
  assumes "acc_local (snd s) \<noteq> None \<and> rewards (fst s) \<noteq> []"
  shows "slot_loop E hp cs s \<noteq> Inl UnboundLocalError
    \<and> slot_loop E hp cs s \<noteq> Inl (IndexError Rewards_last)
    \<and> (\<forall>s'. slot_loop E hp cs s = Inr s' \<longrightarrow> acc_local (snd s') \<noteq> None \<and> rewards (fst s') \<noteq> [])"
  using assms
proof (induction cs arbitrary: s)
  case Nil
  then show ?case by simp
next
  case (Cons c cs)
  show ?case
  proof (cases "slot E hp c s")
    case (Inl e)
    with slot_sound(1,2) [of E c s hp] Cons.prems show ?thesis by auto
  next
    case (Inr s1)
    with slot_sound(3) [of E c s hp s1] Cons.prems
    have "acc_local (snd s1) \<noteq> None \<and> rewards (fst s1) \<noteq> []" by blast
    from Cons.IH [OF this] Inr show ?thesis by simp
  qed
qed

lemma is_epoch_boundary_0: "is_epoch_boundary E 0"
  by (simp add: is_epoch_boundary_def)

lemma run_sound:
  "slot_loop E hp (rt_range rt) s \<noteq> Inl UnboundLocalError
    \<and> slot_loop E hp (rt_range rt) s \<noteq> Inl (IndexError Rewards_last)
    \<and> (\<forall>s'. 0 < rt \<and> slot_loop E hp (rt_range rt) s = Inr s'
          \<longrightarrow> acc_local (snd s') \<noteq> None \<and> rewards (fst s') \<noteq> [])"
proof (cases "0 < rt")
  case False
  then show ?thesis by (simp add: rt_range_def)
next
  case True
  then have r: "rt_range rt = 0 # [1..<nat rt]" by (simp add: rt_range_def upt_conv_Cons)
  show ?thesis
  proof (cases "slot E hp 0 s")
    case (Inl e)
    with slot_sound(1,2) [of E 0 s hp] is_epoch_boundary_0 [of E] show ?thesis
      by (auto simp: r)
  next
    case (Inr s1)
    with slot_sound(3) [of E 0 s hp s1] is_epoch_boundary_0 [of E]
    have "acc_local (snd s1) \<noteq> None \<and> rewards (fst s1) \<noteq> []" by blast
    from slot_loop_sound [OF this, of E hp "[1..<nat rt]"] Inr show ?thesis by (simp add: r)
  qed
qed

lemma summary_error: "summary E T = Inl e \<Longrightarrow> e = ZeroDivisionError"
  by (auto simp: summary_def avg_reward_def avg_stake_ratio_def avg_apy_def avg_apr_def
      py_truediv_def split: sum.splits if_splits)

lemma draw_running_time_error: "draw_running_time E r dbg T = Inl e \<Longrightarrow> e = ValueError"
  by (auto simp: draw_running_time_def randint_def Let_def split: if_splits sum.splits prod.splits)

lemma background_Inl:
  assumes "background E r dbg hp T = Inl e"
  shows "e = ValueError \<or> e = ZeroDivisionError
     \<or> (\<exists>T0. draw_running_time E r dbg T = Inr T0
          \<and> slot_loop E hp (rt_range (running_time T0)) (T0, locals0) = Inl e)"
  using assms
  by (auto simp: background_def split: sum.splits prod.splits
      dest: summary_error draw_running_time_error)

lemma demo_rt_range: "rt_range 2 = [0, 1]"
  by (simp add: rt_range_def upt_conv_Cons)

lemma demo_boundary: "\<not> is_epoch_boundary (demo_env 2 10) 1"
  by (simp add: is_epoch_boundary_def demo_env_def)

lemma slot_loop_two:
  "slot_loop E hp [c1, c2] s = Inr s2 \<Longrightarrow> \<exists>s1. slot E hp c1 s = Inr s1 \<and> slot E hp c2 s1 = Inr s2"
  by (auto split: sum.splits)

text \<open>
  Claim C7 (first-epoch-boundary safety). Slot 0 is an epoch boundary, so \<^verbatim>\<open>acc\<close> is
  assigned and \<^verbatim>\<open>rewards\<close> is non-empty before either is read: neither the loop over
  the slots of a run nor \<^verbatim>\<open>background\<close> as a whole ever raises \<^verbatim>\<open>UnboundLocalError\<close> or
  the \<^verbatim>\<open>IndexError\<close> of \<^verbatim>\<open>self.rewards[-1]\<close>, whatever the table, the participants and
  the controllers. After a run of at least one slot \<^verbatim>\<open>acc\<close> is bound and \<^verbatim>\<open>rewards\<close> is
  non-empty, and a slot that is not an epoch boundary keeps the \<^verbatim>\<open>acc\<close> it was given.
\<close>

theorem first_epoch_boundary_safe:
  "is_epoch_boundary E 0
   \<and> slot_loop E hp (rt_range rt) (T, locals0) \<noteq> Inl UnboundLocalError
   \<and> slot_loop E hp (rt_range rt) (T, locals0) \<noteq> Inl (IndexError Rewards_last)
   \<and> background E r dbg hp T \<noteq> Inl UnboundLocalError
   \<and> background E r dbg hp T \<noteq> Inl (IndexError Rewards_last)
   \<and> (1 \<le> rt \<and> slot_loop E hp (rt_range rt) (T, locals0) = Inr (T', L')
        \<longrightarrow> acc_local L' \<noteq> None \<and> rewards T' \<noteq> [])
   \<and> (\<not> is_epoch_boundary E cnt \<and> slot E hp cnt s = Inr s'
        \<longrightarrow> acc_local (snd s') = acc_local (snd s) \<and> acc_local (snd s) \<noteq> None)"
proof (intro conjI impI)
  show "is_epoch_boundary E 0" by (rule is_epoch_boundary_0)
  show "slot_loop E hp (rt_range rt) (T, locals0) \<noteq> Inl UnboundLocalError"
    "slot_loop E hp (rt_range rt) (T, locals0) \<noteq> Inl (IndexError Rewards_last)"
    using run_sound [of E hp rt "(T, locals0)"] by simp_all
  show "background E r dbg hp T \<noteq> Inl UnboundLocalError"
  proof
    assume "background E r dbg hp T = Inl UnboundLocalError"
    from background_Inl [OF this] run_sound show False by blast
  qed
  show "background E r dbg hp T \<noteq> Inl (IndexError Rewards_last)"
  proof
    assume "background E r dbg hp T = Inl (IndexError Rewards_last)"
    from background_Inl [OF this] run_sound show False by blast
  qed
next
  assume "1 \<le> rt \<and> slot_loop E hp (rt_range rt) (T, locals0) = Inr (T', L')"
  with run_sound [of E hp rt "(T, locals0)"]
  show "acc_local L' \<noteq> None" "rewards T' \<noteq> []" by auto
next
  assume a: "\<not> is_epoch_boundary E cnt \<and> slot E hp cnt s = Inr s'"
  then have b: "slot_body E hp cnt s = Inr s'" and n: "acc_local (snd s') \<noteq> None"
    by (simp_all add: slot_Inr)
  from slot_body_frame(3) [OF b] update_phase_acc(2) [of E cnt hp s] a
  show "acc_local (snd s') = acc_local (snd s)" by simp
  with n show "acc_local (snd s) \<noteq> None" by simp
qed

theorem first_epoch_boundary_safe_witness:
  "\<exists>s0 s1. slot (demo_env 2 10) False 0 (demo_table, locals0) = Inr s0
     \<and> \<not> is_epoch_boundary (demo_env 2 10) 1
     \<and> slot (demo_env 2 10) False 1 s0 = Inr s1
     \<and> acc_local (snd s1) = acc_local (snd s0) \<and> acc_local (snd s0) \<noteq> None
     \<and> (1::int) \<le> 2
     \<and> slot_loop (demo_env 2 10) False (rt_range 2) (demo_table, locals0) = Inr s1
     \<and> acc_local (snd s1) \<noteq> None \<and> rewards (fst s1) \<noteq> []"
proof -
  from demo_run obtain T L where
    run: "slot_loop (demo_env 2 10) False [0, 1] (demo_table, locals0) = Inr (T, L)" by blast
  from slot_loop_two [OF run] obtain s0 where
    s0: "slot (demo_env 2 10) False 0 (demo_table, locals0) = Inr s0"
    and s1: "slot (demo_env 2 10) False 1 s0 = Inr (T, L)" by blast
  from first_epoch_boundary_safe [of "demo_env 2 10" False 2 demo_table False False T L 1 s0 "(T, L)"]
    run s0 s1 demo_boundary
  show ?thesis by (simp add: demo_rt_range)
qed


section \<open>The rewards sequence\<close>

lemma ceil_div_Suc:
  "0 < m \<Longrightarrow>
     Suc n div m + (if Suc n mod m = 0 then 0 else 1)
       = n div m + (if n mod m = 0 then 0 else 1) + (if n mod m = 0 then 1 else 0)"
  by (auto simp: div_Suc mod_Suc split: if_splits)

lemma count_multiples:
  "0 < m \<Longrightarrow>
     length (filter (\<lambda>c. c mod m = 0) [0..<n]) = n div m + (if n mod m = 0 then 0 else 1)"
proof (induction n)
  case 0
  then show ?case by simp
next
  case (Suc n)
  have "length (filter (\<lambda>c. c mod m = 0) [0..<Suc n])
      = length (filter (\<lambda>c. c mod m = 0) [0..<n]) + (if n mod m = 0 then 1 else 0)"
    by simp
  with Suc show ?case by (simp only: ceil_div_Suc)
qed

lemma ceiling_nat_div:
  assumes "0 < m"
  shows "\<lceil>real n / real m\<rceil> = int (n div m + (if n mod m = 0 then 0 else 1))"
proof -
  have "\<lceil>real n / real m\<rceil> = \<lceil>real_of_int (int n) / real_of_int (int m)\<rceil>" by simp
  also have "\<dots> = - (- int n div int m)" by (rule ceiling_divide_eq_div)
  also have "\<dots> = (if int n mod int m = 0 then int n div int m else int n div int m + 1)"
    using assms by (simp add: zdiv_zminus1_eq_if)
  also have "\<dots> = int (n div m + (if n mod m = 0 then 0 else 1))"
    unfolding of_nat_div [symmetric] of_nat_mod [symmetric] by simp
  finally show ?thesis .
qed

lemma slot_rewards:
  assumes "slot E hp cnt s = Inr s'"
  shows "\<exists>new. rewards (fst s') = rewards (fst s) @ new
     \<and> length new = (if is_epoch_boundary E cnt then 1 else 0)"
proof -
  from assms have "slot_body E hp cnt s = Inr s'" by (simp add: slot_Inr)
  from slot_body_rewards [OF this] show ?thesis by blast
qed

lemma slot_loop_rewards:
  "slot_loop E hp cs s = Inr s' \<Longrightarrow>
     \<exists>new. rewards (fst s') = rewards (fst s) @ new
       \<and> length new = length (filter (is_epoch_boundary E) cs)"
proof (induction cs arbitrary: s)
  case Nil
  then show ?case by simp
next
  case (Cons c cs)
  then obtain s1 where 1: "slot E hp c s = Inr s1" and 2: "slot_loop E hp cs s1 = Inr s'"
    by (auto split: sum.splits)
  from slot_rewards [OF 1] obtain n1 where
    n1: "rewards (fst s1) = rewards (fst s) @ n1" "length n1 = (if is_epoch_boundary E c then 1 else 0)"
    by blast
  from Cons.IH [OF 2] obtain n2 where
    n2: "rewards (fst s') = rewards (fst s1) @ n2" "length n2 = length (filter (is_epoch_boundary E) cs)"
    by blast
  have "rewards (fst s') = rewards (fst s) @ (n1 @ n2)" using n1 n2 by simp
  moreover have "length (n1 @ n2) = length (filter (is_epoch_boundary E) (c # cs))"
    using n1 n2 by simp
  ultimately show ?case by blast
qed

lemma run_rewards:
  assumes el: "0 < EPOCH_LENGTH E" and rt: "0 \<le> rt"
    and run: "slot_loop E hp (rt_range rt) s = Inr s'"
  shows "\<exists>new. rewards (fst s') = rewards (fst s) @ new
       \<and> int (length new) = \<lceil>real_of_int rt / real (EPOCH_LENGTH E)\<rceil>"
proof -
  from slot_loop_rewards [OF run] obtain new where
    new: "rewards (fst s') = rewards (fst s) @ new"
      "length new = length (filter (is_epoch_boundary E) (rt_range rt))" by blast
  have "is_epoch_boundary E = (\<lambda>c. c mod EPOCH_LENGTH E = 0)"
    using el by (auto simp: is_epoch_boundary_def fun_eq_iff)
  then have "length new = nat rt div EPOCH_LENGTH E + (if nat rt mod EPOCH_LENGTH E = 0 then 0 else 1)"
    using new(2) count_multiples [OF el, of "nat rt"] by (simp add: rt_range_def)
  then have "int (length new) = \<lceil>real (nat rt) / real (EPOCH_LENGTH E)\<rceil>"
    using ceiling_nat_div [OF el, of "nat rt"] by simp
  also have "real (nat rt) = real_of_int rt" using rt by simp
  finally show ?thesis using new(1) by blast
qed

lemma resync_loop_running_time:
  "resync_loop E cnt is T = Inr T' \<Longrightarrow> running_time T' = running_time T"
proof (induction "is" arbitrary: T)
  case Nil
  then show ?case by simp
next
  case (Cons i "is")
  then obtain T1 where 1: "resync_step E cnt i T = Inr T1" and 2: "resync_loop E cnt is T1 = Inr T'"
    by (auto split: sum.splits)
  from 1 have "running_time T1 = running_time T"
    by (auto simp: resync_step_def split: sum.splits option.splits prod.splits if_splits)
  with Cons.IH [OF 2] show ?case by simp
qed

lemma finalization_running_time:
  "finalization E cnt T = Inr T' \<Longrightarrow> running_time T' = running_time T"
  by (auto simp: finalization_def finalize_def split: if_splits sum.splits
      dest!: payout_Inr resync_loop_running_time)

lemma slot_running_time:
  assumes "slot E hp cnt s = Inr s'"
  shows "running_time (fst s') = running_time (fst s)"
proof -
  from assms have "slot_body E hp cnt s = Inr s'" by (simp add: slot_Inr)
  from slot_body_Inr [OF this] obtain s2 where
    a: "aggregate E (update_phase E hp cnt s) = Inr s2"
    and f: "finalization E cnt (fst s2) = Inr (fst s')" by blast
  from aggregate_Inr [OF a] have "running_time (fst s2) = running_time (fst (update_phase E hp cnt s))"
    by auto
  with finalization_running_time [OF f] update_phase_frame(4) [of E hp cnt s] show ?thesis by simp
qed

lemma slot_loop_running_time:
  "slot_loop E hp cs s = Inr s' \<Longrightarrow> running_time (fst s') = running_time (fst s)"
proof (induction cs arbitrary: s)
  case Nil
  then show ?case by simp
next
  case (Cons c cs)
  then obtain s1 where 1: "slot E hp c s = Inr s1" and 2: "slot_loop E hp cs s1 = Inr s'"
    by (auto split: sum.splits)
  from slot_running_time [OF 1] Cons.IH [OF 2] show ?case by simp
qed

text \<open>
  Claim C5 (shape of the rewards sequence). With a positive \<^verbatim>\<open>EPOCH_LENGTH\<close>, a slot
  appends exactly one reward when its index is a multiple of \<^verbatim>\<open>EPOCH_LENGTH\<close> and none
  otherwise, and it never removes or changes an earlier entry; a completed loop over
  \<open>rt\<close> slots has appended exactly \<open>\<lceil>rt / EPOCH_LENGTH\<rceil>\<close> rewards; and when \<^verbatim>\<open>background\<close>
  returns on a table whose \<^verbatim>\<open>rewards\<close> was empty, \<^verbatim>\<open>rewards\<close> has exactly
  \<open>\<lceil>running_time / EPOCH_LENGTH\<rceil>\<close> entries, \<^verbatim>\<open>running_time\<close> being the (possibly redrawn)
  running time of the run.
\<close>

theorem rewards_shape:
  assumes "0 < EPOCH_LENGTH E"
  shows "(slot E hp cnt s = Inr s' \<longrightarrow>
            (\<exists>new. rewards (fst s') = rewards (fst s) @ new
               \<and> length new = (if cnt mod EPOCH_LENGTH E = 0 then 1 else 0)))
     \<and> (0 \<le> rt \<and> slot_loop E hp (rt_range rt) s = Inr s' \<longrightarrow>
            (\<exists>new. rewards (fst s') = rewards (fst s) @ new
               \<and> int (length new) = \<lceil>real_of_int rt / real (EPOCH_LENGTH E)\<rceil>))
     \<and> (rewards T = [] \<and> background E r dbg hp T = Inr (res, T') \<longrightarrow>
            int (length (rewards T'))
              = \<lceil>real_of_int (running_time T') / real (EPOCH_LENGTH E)\<rceil>)"
proof (intro conjI impI)
  assume "slot E hp cnt s = Inr s'"
  from slot_rewards [OF this] assms
  show "\<exists>new. rewards (fst s') = rewards (fst s) @ new
               \<and> length new = (if cnt mod EPOCH_LENGTH E = 0 then 1 else 0)"
    by (simp add: is_epoch_boundary_def)
next
  assume "0 \<le> rt \<and> slot_loop E hp (rt_range rt) s = Inr s'"
  with run_rewards [OF assms, of rt hp s s']
  show "\<exists>new. rewards (fst s') = rewards (fst s) @ new
               \<and> int (length new) = \<lceil>real_of_int rt / real (EPOCH_LENGTH E)\<rceil>" by blast
next
  assume a: "rewards T = [] \<and> background E r dbg hp T = Inr (res, T')"
  then have "background E r dbg hp T = Inr (res, T')" by simp
  from background_Inr [OF this] obtain T0 L' where
    d: "draw_running_time E r dbg T = Inr T0"
    and run: "slot_loop E hp (rt_range (running_time T0)) (T0, locals0) = Inr (T', L')"
    and sm: "summary E T' = Inr res" by blast
  from sm have ne: "rewards T' \<noteq> []"
    by (auto simp: summary_def avg_reward_def py_truediv_def split: sum.splits if_splits)
  have r0: "rewards T0 = []" using draw_running_time_frame(2) [OF d] a by simp
  have rt0: "0 \<le> running_time T0"
  proof (rule ccontr)
    assume "\<not> 0 \<le> running_time T0"
    then have "rt_range (running_time T0) = []" by (simp add: rt_range_def)
    with run have "T' = T0" by simp
    with r0 ne show False by simp
  qed
  have "running_time T' = running_time T0" using slot_loop_running_time [OF run] by simp
  with run_rewards [OF assms rt0 run] r0
  show "int (length (rewards T')) = \<lceil>real_of_int (running_time T') / real (EPOCH_LENGTH E)\<rceil>"
    by auto
qed

lemma demo_summary:
  "darkies T \<noteq> [] \<Longrightarrow> rewards T \<noteq> [] \<Longrightarrow> \<exists>res. summary (demo_env el rw) T = Inr res"
  by (simp add: summary_def avg_reward_def avg_stake_ratio_def avg_apy_def avg_apr_def
      py_truediv_def)

lemma demo_background:
  "\<exists>res T'. background (demo_env 2 10) False False False demo_table = Inr (res, T')
     \<and> darkies T' = [1, 0] \<and> rewards T' = [10] \<and> running_time T' = 2"
proof -
  have d: "draw_running_time (demo_env 2 10) False False demo_table = Inr demo_table"
    by (simp add: draw_running_time_def demo_table_def init_table_def add_darkie_def)
  have rt: "rt_range (running_time demo_table) = [0, 1]"
    by (simp add: demo_table_def init_table_def add_darkie_def demo_rt_range)
  from demo_run obtain T L where
    run: "slot_loop (demo_env 2 10) False [0, 1] (demo_table, locals0) = Inr (T, L)"
    and T: "darkies T = [1, 0]" "rewards T = [10]" "running_time T = 2" by blast
  from demo_summary [of T 2 10] T obtain res where
    sm: "summary (demo_env 2 10) T = Inr res" by auto
  have "background (demo_env 2 10) False False False demo_table = Inr (res, T)"
    unfolding background_def d by (simp only: rt run sm sum.case prod.case)
  with T show ?thesis by blast
qed

theorem rewards_shape_witness:
  "0 < EPOCH_LENGTH (demo_env 2 10) \<and> rewards demo_table = []
   \<and> (\<exists>res T'. background (demo_env 2 10) False False False demo_table = Inr (res, T')
         \<and> int (length (rewards T')) = \<lceil>real_of_int (running_time T') / real (EPOCH_LENGTH (demo_env 2 10))\<rceil>
         \<and> length (rewards T') = 1 \<and> running_time T' = 2)"
proof -
  have el: "0 < EPOCH_LENGTH (demo_env 2 10)" by (simp add: demo_env_def)
  have r0: "rewards demo_table = []" by (simp add: demo_table_def init_table_def add_darkie_def)
  from demo_background obtain res T' where
    b: "background (demo_env 2 10) False False False demo_table = Inr (res, T')"
    and T': "rewards T' = [10]" "running_time T' = 2" by blast
  from rewards_shape [OF el, where T = demo_table and r = False and dbg = False and hp = False
      and res = res and T' = T']
    r0 b
  have c: "int (length (rewards T')) = \<lceil>real_of_int (running_time T') / real (EPOCH_LENGTH (demo_env 2 10))\<rceil>"
    by blast
  have len: "length (rewards T') = 1" using T' by simp
  from el r0 b c len T'(2) show ?thesis by blast
qed

section \<open>The participant list\<close>

lemma write_calls_ids:
  "map fst (write_calls T) = [0..<length (darkies T)]" "map snd (write_calls T) = darkies T"
  by (simp_all add: write_calls_def)

text \<open>
  Claim C10 (the participant list is permuted, not changed). The slots of a run and
  \<^verbatim>\<open>background\<close> as a whole leave the multiset of participant references in
  \<^verbatim>\<open>self.darkies\<close> as it was, and \<^verbatim>\<open>write\<close> numbers the participants by their position in
  the list after the run. The order itself can change: in the two-slot run of the
  concrete participants the list \<open>[0, 1]\<close> ends as \<open>[1, 0]\<close>, so \<^verbatim>\<open>write\<close> gives id 0 to
  the participant that was added second.
\<close>

theorem participants_permuted:
  "(slot_loop E hp cs s = Inr s' \<longrightarrow> mset (darkies (fst s')) = mset (darkies (fst s)))
   \<and> (background E r dbg hp T = Inr (res, T') \<longrightarrow>
         mset (darkies T') = mset (darkies T)
         \<and> map fst (write_calls T') = [0..<length (darkies T)]
         \<and> map snd (write_calls T') = darkies T')
   \<and> (\<exists>res T'. background (demo_env 2 10) False False False demo_table = Inr (res, T')
         \<and> darkies demo_table = [0, 1] \<and> darkies T' = [1, 0]
         \<and> write_calls T' = [(0, 1), (1, 0)])"
proof (intro conjI impI)
  assume "slot_loop E hp cs s = Inr s'"
  then show "mset (darkies (fst s')) = mset (darkies (fst s))" by (rule slot_loop_darkies)
next
  assume "background E r dbg hp T = Inr (res, T')"
  from background_Inr [OF this] obtain T0 L' where
    d: "draw_running_time E r dbg T = Inr T0"
    and run: "slot_loop E hp (rt_range (running_time T0)) (T0, locals0) = Inr (T', L')" by blast
  from slot_loop_darkies [OF run] draw_running_time_frame(1) [OF d]
  show m: "mset (darkies T') = mset (darkies T)" by simp
  from mset_eq_length [OF m] show "map fst (write_calls T') = [0..<length (darkies T)]"
    by (simp add: write_calls_ids)
  show "map snd (write_calls T') = darkies T'" by (simp add: write_calls_ids)
next
  from demo_background obtain res T' where
    b: "background (demo_env 2 10) False False False demo_table = Inr (res, T')"
    and T': "darkies T' = [1, 0]" by blast
  have "darkies demo_table = [0, 1]" by (simp add: demo_table_def init_table_def add_darkie_def)
  moreover have "write_calls T' = [(0, 1), (1, 0)]"
    using T' by (simp add: write_calls_def upt_conv_Cons)
  ultimately show "\<exists>res T'. background (demo_env 2 10) False False False demo_table = Inr (res, T')
         \<and> darkies demo_table = [0, 1] \<and> darkies T' = [1, 0]
         \<and> write_calls T' = [(0, 1), (1, 0)]"
    using b T' by blast
qed

theorem participants_permuted_witness:
  "\<exists>res T'. background (demo_env 2 10) False False False demo_table = Inr (res, T')
     \<and> mset (darkies T') = mset (darkies demo_table)
     \<and> map fst (write_calls T') = [0..<length (darkies demo_table)]
     \<and> darkies T' \<noteq> darkies demo_table"
proof -
  from demo_background obtain res T' where
    b: "background (demo_env 2 10) False False False demo_table = Inr (res, T')"
    and T': "darkies T' = [1, 0]" by blast
  have d: "darkies demo_table = [0, 1]" by (simp add: demo_table_def init_table_def add_darkie_def)
  from participants_permuted [where E = "demo_env 2 10" and r = False and dbg = False
      and hp = False and T = demo_table and res = res and T' = T'] b
  have "mset (darkies T') = mset (darkies demo_table)
      \<and> map fst (write_calls T') = [0..<length (darkies demo_table)]" by blast
  moreover have "darkies T' \<noteq> darkies demo_table" using T' d by simp
  ultimately show ?thesis using b by blast
qed

section \<open>The summaries on empty input\<close>

text \<open>
  Claim C8 (empty-input summaries raise). With an empty \<^verbatim>\<open>rewards\<close> the mean reward, and
  with no participants each of \<^verbatim>\<open>avg_stake_ratio\<close>, \<^verbatim>\<open>avg_apy\<close> and \<^verbatim>\<open>avg_apr\<close>, is
  \<^verbatim>\<open>ZeroDivisionError\<close>; so is the summary computation as a whole in either case, and so
  is \<^verbatim>\<open>background\<close> when its loop ends on such a table: the error reaches the caller and
  no value is returned.
\<close>

theorem empty_input_summaries_raise:
  "(rewards T = [] \<longrightarrow> avg_reward E T = Inl ZeroDivisionError)
   \<and> (darkies T = [] \<longrightarrow>
         avg_stake_ratio E T = Inl ZeroDivisionError
         \<and> avg_apy E T = Inl ZeroDivisionError
         \<and> avg_apr E T = Inl ZeroDivisionError)
   \<and> (darkies T = [] \<or> rewards T = [] \<longrightarrow> summary E T = Inl ZeroDivisionError)
   \<and> (draw_running_time E r dbg T0 = Inr T1
        \<and> slot_loop E hp (rt_range (running_time T1)) (T1, locals0) = Inr (T, L)
        \<and> (darkies T = [] \<or> rewards T = [])
        \<longrightarrow> background E r dbg hp T0 = Inl ZeroDivisionError)"
proof -
  have s: "summary E T = Inl ZeroDivisionError" if "darkies T = [] \<or> rewards T = []"
    using that
    by (auto simp: summary_def avg_reward_def avg_stake_ratio_def py_truediv_def
        split: sum.splits)
  have "rewards T = [] \<longrightarrow> avg_reward E T = Inl ZeroDivisionError"
    by (simp add: avg_reward_def py_truediv_def)
  moreover have "darkies T = [] \<longrightarrow>
         avg_stake_ratio E T = Inl ZeroDivisionError
         \<and> avg_apy E T = Inl ZeroDivisionError
         \<and> avg_apr E T = Inl ZeroDivisionError"
    by (simp add: avg_stake_ratio_def avg_apy_def avg_apr_def py_truediv_def)
  moreover have "draw_running_time E r dbg T0 = Inr T1
        \<and> slot_loop E hp (rt_range (running_time T1)) (T1, locals0) = Inr (T, L)
        \<and> (darkies T = [] \<or> rewards T = [])
        \<longrightarrow> background E r dbg hp T0 = Inl ZeroDivisionError"
    using s by (auto simp: background_def)
  ultimately show ?thesis using s by blast
qed

theorem empty_input_summaries_raise_witness:
  "rewards (init_table 200 0 () () False demo_objects ([]::nat list)) = []
   \<and> darkies (init_table 200 0 () () False demo_objects ([]::nat list)) = []
   \<and> summary (demo_env 2 10) (init_table 200 0 () () False demo_objects []) = Inl ZeroDivisionError
   \<and> background (demo_env 2 10) False False False (init_table 200 0 () () False demo_objects [])
       = Inl ZeroDivisionError"
proof -
  let ?T = "init_table 200 0 () () False demo_objects ([]::nat list)"
  have e: "rewards ?T = []" "darkies ?T = []" by (simp_all add: init_table_def)
  have d: "draw_running_time (demo_env 2 10) False False ?T = Inr ?T"
    by (simp add: draw_running_time_def init_table_def)
  have l: "slot_loop (demo_env 2 10) False (rt_range (running_time ?T)) (?T, locals0) = Inr (?T, locals0)"
    by (simp add: rt_range_def init_table_def)
  from empty_input_summaries_raise [where T = ?T and E = "demo_env 2 10" and r = False
      and dbg = False and ?T0.0 = ?T and ?T1.0 = ?T and hp = False and L = locals0] e d l
  show ?thesis by simp
qed

section \<open>The payout of a finalizing slot\<close>

lemma count_winners_Inr:
  "count_winners E h ds w = Inr w' \<Longrightarrow>
     w' = w + length (filter (\<lambda>a. last (won_hist E (h a))) ds)
     \<and> (\<forall>a\<in>set ds. won_hist E (h a) \<noteq> [])"
proof (induction ds arbitrary: w)
  case Nil
  then show ?case by simp
next
  case (Cons a ds)
  from Cons.prems obtain b where b: "py_last (won_hist E (h a)) = Some b"
    and r: "count_winners E h ds (w + (if b then 1 else 0)) = Inr w'"
    by (auto split: option.splits)
  from b have ne: "won_hist E (h a) \<noteq> []" and l: "b = last (won_hist E (h a))"
    by (simp_all add: py_last_Some)
  from Cons.IH [OF r] ne l show ?case by auto
qed

lemma pay_winner_first:
  assumes "\<forall>b\<in>set pre. won_hist E (h b) \<noteq> [] \<and> \<not> last (won_hist E (h b))"
    and "won_hist E (h a) \<noteq> []" and "last (won_hist E (h a))" and "rs \<noteq> []"
  shows "pay_winner E rs (pre @ a # post) h = Inr (h(a := update_stake E (last rs) (h a)))"
  using assms by (induction pre) (auto simp: py_last_def split: list.splits)

lemma unique_winner_split:
  assumes "length (filter P ds) = 1"
  shows "\<exists>pre a post. ds = pre @ a # post \<and> P a
     \<and> (\<forall>b\<in>set pre. \<not> P b) \<and> (\<forall>b\<in>set post. \<not> P b)"
proof -
  from assms obtain y where y: "filter P ds = [y]"
    by (cases "filter P ds") auto
  then obtain us vs where "ds = us @ y # vs" "\<forall>u\<in>set us. \<not> P u" "P y" "[] = filter P vs"
    unfolding filter_eq_Cons_iff by blast
  moreover from this(4) have "\<forall>b\<in>set vs. \<not> P b" by (simp add: filter_empty_conv [symmetric])
  ultimately show ?thesis by blast
qed

lemma unique_winner_index:
  assumes "ds = pre @ a # post" "\<forall>b\<in>set pre. \<not> P b" "\<forall>b\<in>set post. \<not> P b"
    and "j < length ds" "P (ds ! j)"
  shows "j = length pre"
proof (rule ccontr)
  assume n: "j \<noteq> length pre"
  show False
  proof (cases "j < length pre")
    case True
    then have "ds ! j \<in> set pre" using assms(1) by (simp add: nth_append)
    with assms(2,5) show False by blast
  next
    case False
    with n have g: "length pre < j" by simp
    then have "ds ! j = post ! (j - length pre - 1)"
      using assms(1) by (simp add: nth_append nth_Cons')
    moreover have "j - length pre - 1 < length post" using g assms(1,4) by simp
    ultimately have "ds ! j \<in> set post" by simp
    with assms(3,5) show False by blast
  qed
qed

text \<open>
  Claim C3 (uniqueness-gated payout). Take the table as the winner aggregation of a slot
  leaves it, the slot's winner count being \<open>feedback\<close>. When the count is not 1 the
  finalization changes nothing: no \<^verbatim>\<open>update_stake\<close>, no change of \<open>Sigma\<close>. When it is 1,
  exactly one position of the participant list holds a participant whose last
  \<^verbatim>\<open>won_hist\<close> entry is true, the payout calls \<^verbatim>\<open>update_stake(rewards[-1])\<close> on that
  participant and on no other, and adds \<^verbatim>\<open>rewards[-1]\<close> to \<open>Sigma\<close>; the finalization is
  that payout followed by the resync loop.
\<close>

theorem uniqueness_gated_payout:
  assumes "aggregate E (T0, L0) = Inr (T, L)"
  shows "(feedback L \<noteq> 1 \<longrightarrow> finalization E cnt T = Inr T)
    \<and> (feedback L = 1 \<and> rewards T \<noteq> [] \<longrightarrow>
         (\<exists>i<length (darkies T).
            last (won_hist E (objects T (darkies T ! i)))
            \<and> (\<forall>j<length (darkies T). last (won_hist E (objects T (darkies T ! j))) \<longrightarrow> j = i)
            \<and> payout E T =
                Inr (T\<lparr>objects := (objects T)
                          (darkies T ! i :=
                             update_stake E (last (rewards T)) (objects T (darkies T ! i))),
                        Sigma := float_add E (Sigma T) (last (rewards T))\<rparr>)
            \<and> finalization E cnt T =
                resync_loop E cnt [0..<merge_length (winners T)]
                  (T\<lparr>objects := (objects T)
                          (darkies T ! i :=
                             update_stake E (last (rewards T)) (objects T (darkies T ! i))),
                        Sigma := float_add E (Sigma T) (last (rewards T))\<rparr>)))"
proof (intro conjI impI)
  from aggregate_Inr [OF assms] obtain w where
    cw: "count_winners E (objects T0) (darkies T0) 0 = Inr w"
    and T: "T = T0\<lparr>winners := winners T0 @ [w]\<rparr>" and L: "L = L0\<lparr>feedback := w\<rparr>"
    by auto
  have lw: "py_last (winners T) = Some (feedback L)" by (simp add: T L py_last_Some)
  show "finalization E cnt T = Inr T" if "feedback L \<noteq> 1"
    using that lw by (simp add: finalization_def)
  show "\<exists>i<length (darkies T).
            last (won_hist E (objects T (darkies T ! i)))
            \<and> (\<forall>j<length (darkies T). last (won_hist E (objects T (darkies T ! j))) \<longrightarrow> j = i)
            \<and> payout E T =
                Inr (T\<lparr>objects := (objects T)
                          (darkies T ! i :=
                             update_stake E (last (rewards T)) (objects T (darkies T ! i))),
                        Sigma := float_add E (Sigma T) (last (rewards T))\<rparr>)
            \<and> finalization E cnt T =
                resync_loop E cnt [0..<merge_length (winners T)]
                  (T\<lparr>objects := (objects T)
                          (darkies T ! i :=
                             update_stake E (last (rewards T)) (objects T (darkies T ! i))),
                        Sigma := float_add E (Sigma T) (last (rewards T))\<rparr>)"
    if a: "feedback L = 1 \<and> rewards T \<noteq> []"
  proof -
    let ?P = "\<lambda>a. last (won_hist E (objects T a))"
    have od: "objects T = objects T0" "darkies T = darkies T0" by (simp_all add: T)
    from a L have w1: "w = 1" by simp
    from count_winners_Inr [OF cw] w1 od
    have one: "length (filter ?P (darkies T)) = 1"
      and ne: "\<forall>a\<in>set (darkies T). won_hist E (objects T a) \<noteq> []" by simp_all
    from unique_winner_split [OF one] obtain pre x post where
      sp: "darkies T = pre @ x # post" and Px: "?P x"
      and npre: "\<forall>b\<in>set pre. \<not> ?P b" and npost: "\<forall>b\<in>set post. \<not> ?P b" by blast
    let ?i = "length pre"
    have i: "?i < length (darkies T)" and xi: "darkies T ! ?i = x" by (simp_all add: sp)
    have uniq: "\<forall>j<length (darkies T). ?P (darkies T ! j) \<longrightarrow> j = ?i"
      using unique_winner_index [OF sp npre npost] by blast
    have "pay_winner E (rewards T) (pre @ x # post) (objects T)
        = Inr ((objects T)(x := update_stake E (last (rewards T)) (objects T x)))"
      using ne npre Px a by (intro pay_winner_first) (auto simp: sp)
    then have po: "payout E T =
        Inr (T\<lparr>objects := (objects T)(x := update_stake E (last (rewards T)) (objects T x)),
              Sigma := float_add E (Sigma T) (last (rewards T))\<rparr>)"
      using a by (simp add: payout_def sp [symmetric] py_last_def split: list.splits)
    have fin: "finalization E cnt T =
        resync_loop E cnt [0..<merge_length (winners T)]
          (T\<lparr>objects := (objects T)(x := update_stake E (last (rewards T)) (objects T x)),
              Sigma := float_add E (Sigma T) (last (rewards T))\<rparr>)"
      using lw a po by (simp add: finalization_def finalize_def)
    have Pi: "?P (darkies T ! ?i)" using Px by (simp only: xi)
    note po' = po [folded xi] and fin' = fin [folded xi]
    from i Pi uniq po' fin' show ?thesis by blast
  qed
qed

lemma demo_won_aggregate:
  "aggregate (demo_env 2 10) (demo_won_table, locals0)
     = Inr (demo_won_table\<lparr>winners := [1]\<rparr>, locals0\<lparr>feedback := 1\<rparr>)"
  by (simp add: aggregate_def demo_won_table_def demo_won_objects_def demo_env_def py_last_def)

theorem uniqueness_gated_payout_witness:
  "aggregate (demo_env 2 10) (demo_won_table, locals0)
     = Inr (demo_won_table\<lparr>winners := [1]\<rparr>, locals0\<lparr>feedback := 1\<rparr>)
   \<and> feedback (locals0\<lparr>feedback := 1\<rparr>) = 1
   \<and> rewards (demo_won_table\<lparr>winners := [1]\<rparr>) \<noteq> []
   \<and> (\<exists>T'. payout (demo_env 2 10) (demo_won_table\<lparr>winners := [1]\<rparr>) = Inr T'
         \<and> Sigma T' = 210 \<and> d_stake (objects T' 0) = 110 \<and> d_stake (objects T' 1) = 100)"
proof -
  let ?T = "demo_won_table\<lparr>winners := [1]\<rparr>"
  let ?L = "locals0\<lparr>feedback := 1\<rparr>"
  have f: "feedback ?L = 1" by simp
  have r: "rewards ?T \<noteq> []" by (simp add: demo_won_table_def)
  from uniqueness_gated_payout [OF demo_won_aggregate, of 0] f r
  obtain i where i: "i < length (darkies ?T)"
    and w: "last (won_hist (demo_env 2 10) (objects ?T (darkies ?T ! i)))"
    and p: "payout (demo_env 2 10) ?T =
      Inr (?T\<lparr>objects := (objects ?T)
                (darkies ?T ! i :=
                   update_stake (demo_env 2 10) (last (rewards ?T)) (objects ?T (darkies ?T ! i))),
              Sigma := float_add (demo_env 2 10) (Sigma ?T) (last (rewards ?T))\<rparr>)"
    by blast
  from i have "i = 0 \<or> i = 1" by (auto simp: demo_won_table_def)
  with w have i0: "i = 0" by (auto simp: demo_won_table_def demo_won_objects_def demo_env_def)
  let ?T' = "?T\<lparr>objects := (objects ?T)
                (darkies ?T ! i :=
                   update_stake (demo_env 2 10) (last (rewards ?T)) (objects ?T (darkies ?T ! i))),
              Sigma := float_add (demo_env 2 10) (Sigma ?T) (last (rewards ?T))\<rparr>"
  have "Sigma ?T' = 210 \<and> d_stake (objects ?T' 0) = 110 \<and> d_stake (objects ?T' 1) = 100"
    by (simp add: i0 demo_won_table_def demo_won_objects_def demo_env_def darkie_pay_def)
  with p demo_won_aggregate f r show ?thesis by blast
qed

section \<open>The attribution of a resync payout\<close>

lemma find_winning_Inr:
  assumes "find_winning E h s ds k = Inr idx"
  shows "(\<exists>j<length ds. idx = k + j \<and> py_get (won_hist E (h (ds ! j))) s = Some True
            \<and> (\<forall>i<j. py_get (won_hist E (h (ds ! i))) s = Some False))
         \<or> (idx = 0 \<and> (\<forall>a\<in>set ds. py_get (won_hist E (h a)) s = Some False))"
  using assms
proof (induction ds arbitrary: k)
  case Nil
  then show ?case by simp
next
  case (Cons a ds)
  from Cons.prems obtain b where b: "py_get (won_hist E (h a)) s = Some b"
    by (auto split: option.splits)
  show ?case
  proof (cases b)
    case True
    with Cons.prems b have "idx = k" by simp
    with b True have "0 < length (a # ds) \<and> idx = k + 0
        \<and> py_get (won_hist E (h ((a # ds) ! 0))) s = Some True
        \<and> (\<forall>i<0. py_get (won_hist E (h ((a # ds) ! i))) s = Some False)" by simp
    then show ?thesis by blast
  next
    case False
    with Cons.prems b have r: "find_winning E h s ds (Suc k) = Inr idx" by simp
    from Cons.IH [OF r] show ?thesis
    proof
      assume "\<exists>j<length ds. idx = Suc k + j \<and> py_get (won_hist E (h (ds ! j))) s = Some True
            \<and> (\<forall>i<j. py_get (won_hist E (h (ds ! i))) s = Some False)"
      then obtain j where j: "j < length ds" "idx = Suc k + j"
        "py_get (won_hist E (h (ds ! j))) s = Some True"
        "\<forall>i<j. py_get (won_hist E (h (ds ! i))) s = Some False" by blast
      have "\<forall>i<Suc j. py_get (won_hist E (h ((a # ds) ! i))) s = Some False"
      proof (intro allI impI)
        fix i assume "i < Suc j"
        then show "py_get (won_hist E (h ((a # ds) ! i))) s = Some False"
          using b False j(4) by (cases i) auto
      qed
      with j have "Suc j < length (a # ds) \<and> idx = k + Suc j
          \<and> py_get (won_hist E (h ((a # ds) ! Suc j))) s = Some True
          \<and> (\<forall>i<Suc j. py_get (won_hist E (h ((a # ds) ! i))) s = Some False)" by simp
      then show ?thesis by blast
    next
      assume "idx = 0 \<and> (\<forall>a\<in>set ds. py_get (won_hist E (h a)) s = Some False)"
      with b False show ?thesis by simp
    qed
  qed
qed

text \<open>
  Who is paid by one resync step: the participant at the first position of the shuffled
  list whose \<^verbatim>\<open>won_hist\<close> entry for the resolved slot is true or, when every entry is
  false, the participant at position 0 of the shuffled list.
\<close>

lemma resync_step_payee:
  assumes "resync_step E cnt i T = Inr T'"
  shows "\<exists>r idx. py_get (rewards T) (int_truediv (resync_slot_id cnt i) (EPOCH_LENGTH E)) = Some r
    \<and> darkies T' = fst (shuffle E (darkies T) (random_state T))
    \<and> idx < length (darkies T')
    \<and> objects T' = (objects T)
          (darkies T' ! idx := resync_stake E r (objects T (darkies T' ! idx)))
    \<and> Sigma T' = float_add E (Sigma T) r
    \<and> ((py_get (won_hist E (objects T (darkies T' ! idx))) (resync_slot_id cnt i) = Some True
          \<and> (\<forall>j<idx. py_get (won_hist E (objects T (darkies T' ! j))) (resync_slot_id cnt i)
                = Some False))
        \<or> (idx = 0 \<and> (\<forall>a\<in>set (darkies T').
              py_get (won_hist E (objects T a)) (resync_slot_id cnt i) = Some False)))"
proof -
  let ?s = "resync_slot_id cnt i"
  obtain ds g where sh: "shuffle E (darkies T) (random_state T) = (ds, g)"
    by (cases "shuffle E (darkies T) (random_state T)")
  from assms sh obtain r idx where
    r: "py_get (rewards T) (int_truediv ?s (EPOCH_LENGTH E)) = Some r"
    and f: "find_winning E (objects T) ?s ds 0 = Inr idx"
    and l: "idx < length ds"
    and T': "T' = T\<lparr>darkies := ds, random_state := g,
                objects := (objects T)(ds ! idx := resync_stake E r (objects T (ds ! idx))),
                Sigma := float_add E (Sigma T) r\<rparr>"
    by (auto simp: resync_step_def resync_reward_id_def
        split: sum.splits option.splits if_splits)
  from find_winning_Inr [OF f]
  have "(py_get (won_hist E (objects T (ds ! idx))) ?s = Some True
          \<and> (\<forall>j<idx. py_get (won_hist E (objects T (ds ! j))) ?s = Some False))
        \<or> (idx = 0 \<and> (\<forall>a\<in>set ds. py_get (won_hist E (objects T a)) ?s = Some False))"
    by auto
  with r l show ?thesis by (intro exI [of _ r] exI [of _ idx]) (simp add: T' sh)
qed

text \<open>
  Claim C2 (resync attribution), evaluated on the two-slot run of the concrete
  participants: nobody wins slot 0 and participant 0 alone wins slot 1. When slot 1
  finalizes, the resync loop resolves slot 0. No participant has a true \<^verbatim>\<open>won_hist\<close>
  entry for slot 0, the scan finds nobody and \<^verbatim>\<open>darkie_winning_idx\<close> keeps its initial
  value 0, so the participant that the shuffle put first, participant 1, receives
  \<^verbatim>\<open>resync_stake\<close>: its stake goes from 100 to 110 although it won neither slot, and
  \<open>Sigma\<close> ends at 220.
\<close>

theorem resync_pays_non_winner:
  "\<exists>T L. slot_loop (demo_env 2 10) False [0, 1] (demo_table, locals0) = Inr (T, L)
     \<and> winners T = [0, 1]
     \<and> won_hist (demo_env 2 10) (objects T 0) = [False, True]
     \<and> won_hist (demo_env 2 10) (objects T 1) = [False, False]
     \<and> stake (demo_env 2 10) (objects demo_table 1) = 100
     \<and> stake (demo_env 2 10) (objects T 1) = 110
     \<and> Sigma demo_table = 200 \<and> Sigma T = 220"
proof -
  from demo_run obtain T L where
    "slot_loop (demo_env 2 10) False [0, 1] (demo_table, locals0) = Inr (T, L)"
    "winners T = [0, 1]" "Sigma T = 220" "d_stake (objects T 1) = 110"
    "d_won_hist (objects T 0) = [False, True]" "d_won_hist (objects T 1) = [False, False]"
    by blast
  moreover have "stake (demo_env 2 10) = d_stake" "won_hist (demo_env 2 10) = d_won_hist"
    by (simp_all add: demo_env_def)
  moreover have "d_stake (objects demo_table 1) = 100" "Sigma demo_table = 200"
    by (simp_all add: demo_table_def init_table_def add_darkie_def demo_objects_def)
  ultimately show ?thesis by auto
qed

section \<open>The total supply\<close>

lemma resync_loop_Sigma:
  assumes fm: "\<forall>x r. 0 \<le> r \<longrightarrow> x \<le> float_add E x r"
  shows "resync_loop E cnt is T = Inr T' \<Longrightarrow> \<forall>r\<in>set (rewards T). 0 \<le> r \<Longrightarrow> Sigma T \<le> Sigma T'"
proof (induction "is" arbitrary: T)
  case Nil
  then show ?case by simp
next
  case (Cons i "is")
  from Cons.prems(1) obtain T1 where 1: "resync_step E cnt i T = Inr T1"
    and 2: "resync_loop E cnt is T1 = Inr T'" by (auto split: sum.splits)
  from resync_step_Inr(4) [OF 1] obtain r where "r \<in> set (rewards T)"
    "Sigma T1 = float_add E (Sigma T) r" by blast
  with Cons.prems(2) fm have "Sigma T \<le> Sigma T1" by simp
  moreover have "\<forall>r\<in>set (rewards T1). 0 \<le> r"
    using resync_step_Inr(1) [OF 1] Cons.prems(2) by simp
  ultimately show ?case using Cons.IH [OF 2] by simp
qed

lemma finalization_Sigma:
  assumes "finalization E cnt T = Inr T'"
    and fm: "\<forall>x r. 0 \<le> r \<longrightarrow> x \<le> float_add E x r"
    and nn: "\<forall>r\<in>set (rewards T). 0 \<le> r"
  shows "Sigma T \<le> Sigma T'"
proof (cases "py_last (winners T) = Some 1")
  case False
  with assms(1) show ?thesis by (simp add: finalization_def)
next
  case True
  with assms(1) obtain T1 where 1: "payout E T = Inr T1"
    and 2: "resync_loop E cnt [0..<merge_length (winners T1)] T1 = Inr T'"
    by (auto simp: finalization_def finalize_def split: sum.splits)
  from payout_Inr [OF 1] have ne: "rewards T \<noteq> []"
    and S1: "Sigma T1 = float_add E (Sigma T) (last (rewards T))"
    and r1: "rewards T1 = rewards T" by auto
  from ne nn have "0 \<le> last (rewards T)" by simp
  with fm S1 have "Sigma T \<le> Sigma T1" by simp
  moreover from resync_loop_Sigma [OF fm 2] nn r1 have "Sigma T1 \<le> Sigma T'" by simp
  ultimately show ?thesis by simp
qed

lemma slot_Sigma:
  assumes "slot E hp cnt s = Inr s'"
    and fm: "\<forall>x r. 0 \<le> r \<longrightarrow> x \<le> float_add E x r"
    and nn: "\<forall>r\<in>set (rewards (fst s')). 0 \<le> r"
  shows "Sigma (fst s) \<le> Sigma (fst s')"
proof -
  from assms(1) have b: "slot_body E hp cnt s = Inr s'" by (simp add: slot_Inr)
  from slot_body_Inr [OF b] obtain s2 where
    a: "aggregate E (update_phase E hp cnt s) = Inr s2"
    and f: "finalization E cnt (fst s2) = Inr (fst s')" by blast
  from finalization_Inr(1) [OF f] nn have "\<forall>r\<in>set (rewards (fst s2)). 0 \<le> r" by simp
  from finalization_Sigma [OF f fm this] aggregate_frame(2) [OF a]
    update_phase_frame(2) [of E hp cnt s]
  show ?thesis by simp
qed

lemma slot_loop_Sigma:
  assumes fm: "\<forall>x r. 0 \<le> r \<longrightarrow> x \<le> float_add E x r"
  shows "slot_loop E hp cs s = Inr s' \<Longrightarrow> \<forall>r\<in>set (rewards (fst s')). 0 \<le> r \<Longrightarrow>
     Sigma (fst s) \<le> Sigma (fst s')"
proof (induction cs arbitrary: s)
  case Nil
  then show ?case by simp
next
  case (Cons c cs)
  from Cons.prems(1) obtain s1 where 1: "slot E hp c s = Inr s1"
    and 2: "slot_loop E hp cs s1 = Inr s'" by (auto split: sum.splits)
  from slot_loop_rewards [OF 2] Cons.prems(2) have "\<forall>r\<in>set (rewards (fst s1)). 0 \<le> r"
    by auto
  from slot_Sigma [OF 1 fm this] Cons.IH [OF 2 Cons.prems(2)] show ?case by simp
qed

text \<open>Two runs of two slots with the issuance -10, evaluated: one in which participant 0
  wins slot 1, and one in which nobody ever wins.\<close>

lemma negative_issuance_slot0:
  "\<exists>T L. slot_loop (demo_env 2 (- 10)) False [0]
             (demo_table_of 200 2 50 [False, True] 50 [False, False], locals0) = Inr (T, L)
     \<and> Sigma T = 200"
  by (simp add: demo_env_def demo_table_of_def demo_objects_of_def engine_eval)

lemma negative_issuance_run:
  "\<exists>T L. slot_loop (demo_env 2 (- 10)) False [0, 1]
             (demo_table_of 200 2 50 [False, True] 50 [False, False], locals0) = Inr (T, L)
     \<and> Sigma T = 180 \<and> rewards T = [- 10]"
  by (simp add: demo_env_def demo_table_of_def demo_objects_of_def engine_eval)

lemma negative_issuance_unpaid:
  "\<exists>T L. slot_loop (demo_env 2 (- 10)) False [0, 1]
             (demo_table_of 200 2 50 [] 50 [], locals0) = Inr (T, L)
     \<and> Sigma T = 200 \<and> rewards T = [- 10]"
  by (simp add: demo_env_def demo_table_of_def demo_objects_of_def engine_eval)

text \<open>
  Claim C6 (supply monotonicity), as the code has it. \<open>Sigma\<close> changes only in the
  finalization: the payout adds \<^verbatim>\<open>rewards[-1]\<close> to it and each resync step adds one entry
  of \<^verbatim>\<open>rewards\<close>; the per-participant update and the winner aggregation leave it as it
  is. So, float addition of a non-negative number never decreasing a value, \<open>Sigma\<close> after
  the first \<open>k2\<close> slots of a run is at least \<open>Sigma\<close> after its first \<open>k1 \<le> k2\<close> slots
  whenever no entry of \<^verbatim>\<open>rewards\<close> after the \<open>k2\<close> slots is negative. That the rewards are
  non-negative is sufficient, not necessary, and it is a property of the primary
  controller, not of the engine.
\<close>

theorem supply_monotone:
  "(payout E T = Inr T1 \<longrightarrow> Sigma T1 = float_add E (Sigma T) (last (rewards T)))
   \<and> (resync_step E cnt i T = Inr T2 \<longrightarrow> (\<exists>r\<in>set (rewards T). Sigma T2 = float_add E (Sigma T) r))
   \<and> Sigma (fst (update_phase E hp cnt s)) = Sigma (fst s)
   \<and> (aggregate E s = Inr s' \<longrightarrow> Sigma (fst s') = Sigma (fst s))
   \<and> ((\<forall>x r. 0 \<le> r \<longrightarrow> x \<le> float_add E x r) \<and> k1 \<le> k2
        \<and> slot_loop E hp (take k1 cs) s0 = Inr s1 \<and> slot_loop E hp (take k2 cs) s0 = Inr s2
        \<and> (\<forall>r\<in>set (rewards (fst s2)). 0 \<le> r)
        \<longrightarrow> Sigma (fst s1) \<le> Sigma (fst s2))"
proof (intro conjI impI)
  show "Sigma T1 = float_add E (Sigma T) (last (rewards T))" if "payout E T = Inr T1"
    using payout_Inr [OF that] by auto
  show "\<exists>r\<in>set (rewards T). Sigma T2 = float_add E (Sigma T) r" if "resync_step E cnt i T = Inr T2"
    using that by (rule resync_step_Inr(4))
  show "Sigma (fst (update_phase E hp cnt s)) = Sigma (fst s)" by (rule update_phase_frame(2))
  show "Sigma (fst s') = Sigma (fst s)" if "aggregate E s = Inr s'"
    using that by (rule aggregate_frame(2))
next
  assume a: "(\<forall>x r. 0 \<le> r \<longrightarrow> x \<le> float_add E x r) \<and> k1 \<le> k2
        \<and> slot_loop E hp (take k1 cs) s0 = Inr s1 \<and> slot_loop E hp (take k2 cs) s0 = Inr s2
        \<and> (\<forall>r\<in>set (rewards (fst s2)). 0 \<le> r)"
  then have fm: "\<forall>x r. 0 \<le> r \<longrightarrow> x \<le> float_add E x r" and k: "k1 \<le> k2"
    and r1: "slot_loop E hp (take k1 cs) s0 = Inr s1"
    and r2: "slot_loop E hp (take k2 cs) s0 = Inr s2"
    and nn: "\<forall>r\<in>set (rewards (fst s2)). 0 \<le> r" by blast+
  from slot_loop_take_Inr [OF r2, of k1] obtain sk where
    a: "slot_loop E hp (take k1 (take k2 cs)) s0 = Inr sk"
    and b: "slot_loop E hp (drop k1 (take k2 cs)) sk = Inr s2" by blast
  from k have "take k1 (take k2 cs) = take k1 cs" by (simp add: min_def)
  with a r1 have sk: "sk = s1" by simp
  from slot_loop_Sigma [OF fm b [unfolded sk] nn] show "Sigma (fst s1) \<le> Sigma (fst s2)" .
qed

theorem supply_monotone_witness:
  "(1::nat) \<le> 2
   \<and> (\<exists>s1 s2. (\<forall>x r. 0 \<le> r \<longrightarrow> x \<le> float_add (demo_env 2 10) x r)
        \<and> slot_loop (demo_env 2 10) False (take 1 [0, 1]) (demo_table, locals0) = Inr s1
        \<and> slot_loop (demo_env 2 10) False (take 2 [0, 1]) (demo_table, locals0) = Inr s2
        \<and> rewards (fst s2) = [10]
        \<and> Sigma (fst s1) \<le> Sigma (fst s2) \<and> Sigma (fst s2) = 220)"
proof -
  have fm: "\<forall>x r. 0 \<le> r \<longrightarrow> x \<le> float_add (demo_env 2 10) x r"
    by (simp add: demo_env_def)
  from demo_run obtain T L where
    run: "slot_loop (demo_env 2 10) False [0, 1] (demo_table, locals0) = Inr (T, L)"
    and S: "Sigma T = 220" and R: "rewards T = [10]" by blast
  from slot_loop_two [OF run] obtain s1 where
    s1: "slot (demo_env 2 10) False 0 (demo_table, locals0) = Inr s1" by blast
  have t1: "slot_loop (demo_env 2 10) False (take 1 [0, 1]) (demo_table, locals0) = Inr s1"
    using s1 by simp
  have t2: "slot_loop (demo_env 2 10) False (take 2 [0, 1]) (demo_table, locals0) = Inr (T, L)"
    using run by simp
  have k: "(1::nat) \<le> 2" by simp
  have nn: "\<forall>r\<in>set (rewards (fst (T, L))). 0 \<le> r" using R by simp
  from supply_monotone [where E = "demo_env 2 10" and hp = False and cs = "[0, 1]"
      and ?k1.0 = 1 and ?k2.0 = 2 and ?s0.0 = "(demo_table, locals0)" and ?s1.0 = s1
      and ?s2.0 = "(T, L)"] fm k t1 t2 nn
  have "Sigma (fst s1) \<le> Sigma (fst (T, L))" by blast
  with fm t1 t2 S R show ?thesis
    by (intro conjI exI [of _ s1] exI [of _ "(T, L)"]) simp_all
qed

text \<open>
  The claim as the spec states it fails in both directions. With the issuance -10 a run
  completes in which \<open>Sigma\<close> is 200 after slot 0 and 180 after slot 1. And in the run
  in which nobody wins, the appended reward is negative while \<open>Sigma\<close> stays at 200.
\<close>

theorem supply_monotone_counterexample:
  "\<not> isl (slot_loop (demo_env 2 (- 10)) False [0]
            (demo_table_of 200 2 50 [False, True] 50 [False, False], locals0))
   \<and> Sigma (fst (projr (slot_loop (demo_env 2 (- 10)) False [0]
            (demo_table_of 200 2 50 [False, True] 50 [False, False], locals0)))) = 200
   \<and> \<not> isl (slot_loop (demo_env 2 (- 10)) False [0, 1]
            (demo_table_of 200 2 50 [False, True] 50 [False, False], locals0))
   \<and> Sigma (fst (projr (slot_loop (demo_env 2 (- 10)) False [0, 1]
            (demo_table_of 200 2 50 [False, True] 50 [False, False], locals0)))) = 180
   \<and> \<not> isl (slot_loop (demo_env 2 (- 10)) False [0, 1]
            (demo_table_of 200 2 50 [] 50 [], locals0))
   \<and> rewards (fst (projr (slot_loop (demo_env 2 (- 10)) False [0, 1]
            (demo_table_of 200 2 50 [] 50 [], locals0)))) = [- 10]
   \<and> Sigma (fst (projr (slot_loop (demo_env 2 (- 10)) False [0, 1]
            (demo_table_of 200 2 50 [] 50 [], locals0)))) = 200"
proof -
  from negative_issuance_slot0 obtain T0 L0 where
    a: "slot_loop (demo_env 2 (- 10)) False [0]
          (demo_table_of 200 2 50 [False, True] 50 [False, False], locals0) = Inr (T0, L0)"
    and a': "Sigma T0 = 200" by blast
  from negative_issuance_run obtain T1 L1 where
    b: "slot_loop (demo_env 2 (- 10)) False [0, 1]
          (demo_table_of 200 2 50 [False, True] 50 [False, False], locals0) = Inr (T1, L1)"
    and b': "Sigma T1 = 180" by blast
  from negative_issuance_unpaid obtain T2 L2 where
    c: "slot_loop (demo_env 2 (- 10)) False [0, 1]
          (demo_table_of 200 2 50 [] 50 [], locals0) = Inr (T2, L2)"
    and c': "Sigma T2 = 200" "rewards T2 = [- 10]" by blast
  from a' b' c' show ?thesis unfolding a b c by simp
qed

section \<open>The resynchronisation window, by index\<close>

lemma merge_length_nth:
  assumes "k < merge_length ws"
  shows "ws ! (length ws - 2 - k) \<noteq> 1"
proof -
  let ?xs = "rev (butlast ws)"
  let ?tw = "takeWhile (\<lambda>w. w \<noteq> 1) ?xs"
  from assms have k: "k < length ?tw" by (simp add: merge_length_takeWhile)
  then have "?tw ! k \<in> set ?tw" by (rule nth_mem)
  then have "?tw ! k \<noteq> 1" by (auto dest: set_takeWhileD)
  moreover have "?tw ! k = ?xs ! k" using k by (rule takeWhile_nth)
  moreover have kl: "k < length (butlast ws)"
    using k length_takeWhile_le [of "\<lambda>w. w \<noteq> 1" ?xs] by simp
  then have "?xs ! k = butlast ws ! (length (butlast ws) - Suc k)" by (simp add: rev_nth)
  moreover have "butlast ws ! (length (butlast ws) - Suc k) = ws ! (length (butlast ws) - Suc k)"
    using kl by (simp add: nth_butlast)
  moreover have "length (butlast ws) - Suc k = length ws - 2 - k" by simp
  ultimately show ?thesis by simp
qed

lemma merge_length_stop:
  assumes "merge_length ws < length ws - 1"
  shows "ws ! (length ws - 2 - merge_length ws) = 1"
proof -
  let ?xs = "rev (butlast ws)"
  let ?m = "length (takeWhile (\<lambda>w. w \<noteq> 1) ?xs)"
  from assms have m: "?m < length ?xs" by (simp add: merge_length_takeWhile)
  from nth_length_takeWhile [OF m] have "?xs ! ?m = 1" by simp
  moreover from m have ml: "?m < length (butlast ws)" by simp
  then have "?xs ! ?m = butlast ws ! (length (butlast ws) - Suc ?m)" by (simp add: rev_nth)
  moreover have "butlast ws ! (length (butlast ws) - Suc ?m) = ws ! (length (butlast ws) - Suc ?m)"
    using ml by (simp add: nth_butlast)
  moreover have "length (butlast ws) - Suc ?m = length ws - 2 - ?m" by simp
  ultimately show ?thesis by (simp add: merge_length_takeWhile)
qed

lemma resync_slot_id_index:
  assumes "length ws = Suc cnt" "i < merge_length ws"
  shows "resync_slot_id cnt i = int (length ws - 2 - i)"
proof -
  from assms(2) merge_length_le [of ws] have "i < length ws - 1" by simp
  with assms(1) show ?thesis by (simp add: resync_slot_id_def)
qed

lemma payout_winners: "payout E T = Inr T' \<Longrightarrow> winners T' = winners T"
  by (auto dest!: payout_Inr)

text \<open>The resync loop over the offsets \<open>k, \<dots>, k + m - 1\<close> is a chain of \<open>m\<close> resync steps,
  none of which changes \<^verbatim>\<open>rewards\<close>.\<close>

lemma resync_loop_chain:
  "resync_loop E cnt [k..<k + m] T = Inr T' \<Longrightarrow>
     \<exists>Ts. length Ts = Suc m \<and> Ts ! 0 = T \<and> Ts ! m = T'
       \<and> (\<forall>i<m. resync_step E cnt (k + i) (Ts ! i) = Inr (Ts ! Suc i)
               \<and> rewards (Ts ! i) = rewards T)"
proof (induction m arbitrary: k T)
  case 0
  then have "T' = T" by simp
  then have "length [T] = Suc 0 \<and> [T] ! 0 = T \<and> [T] ! 0 = T'
       \<and> (\<forall>i<0. resync_step E cnt (k + i) ([T] ! i) = Inr ([T] ! Suc i)
               \<and> rewards ([T] ! i) = rewards T)" by simp
  then show ?case by blast
next
  case (Suc m)
  have "[k..<k + Suc m] = k # [Suc k..<Suc k + m]" by (simp add: upt_conv_Cons)
  with Suc.prems obtain T1 where 1: "resync_step E cnt k T = Inr T1"
    and 2: "resync_loop E cnt [Suc k..<Suc k + m] T1 = Inr T'"
    by (auto split: sum.splits)
  from Suc.IH [OF 2] obtain Ts where Ts: "length Ts = Suc m" "Ts ! 0 = T1" "Ts ! m = T'"
    "\<forall>i<m. resync_step E cnt (Suc k + i) (Ts ! i) = Inr (Ts ! Suc i)
        \<and> rewards (Ts ! i) = rewards T1" by blast
  have r1: "rewards T1 = rewards T" by (rule resync_step_Inr(1) [OF 1])
  have "\<forall>i<Suc m. resync_step E cnt (k + i) ((T # Ts) ! i) = Inr ((T # Ts) ! Suc i)
      \<and> rewards ((T # Ts) ! i) = rewards T"
  proof (intro allI impI)
    fix i assume i: "i < Suc m"
    show "resync_step E cnt (k + i) ((T # Ts) ! i) = Inr ((T # Ts) ! Suc i)
      \<and> rewards ((T # Ts) ! i) = rewards T"
    proof (cases i)
      case 0
      with 1 Ts(2) show ?thesis by simp
    next
      case (Suc j)
      with i Ts(4) r1 show ?thesis by simp
    qed
  qed
  moreover have "length (T # Ts) = Suc (Suc m)" "(T # Ts) ! 0 = T" "(T # Ts) ! Suc m = T'"
    using Ts by simp_all
  ultimately show ?case by blast
qed

text \<open>
  A finalization is the payout followed by \<open>merge_length\<close> resync steps; the step at
  offset \<open>i\<close> adds to \<open>Sigma\<close> the reward of the epoch of slot \<^verbatim>\<open>count-(i+1)\<close>.
\<close>

lemma finalize_chain:
  assumes "finalize E cnt T = Inr T'"
  shows "\<exists>Ts. length Ts = Suc (merge_length (winners T)) \<and> payout E T = Inr (Ts ! 0)
     \<and> Ts ! merge_length (winners T) = T'
     \<and> (\<forall>i<merge_length (winners T).
           resync_step E cnt i (Ts ! i) = Inr (Ts ! Suc i)
           \<and> (\<exists>r. py_get (rewards T)
                      (int_truediv (resync_slot_id cnt i) (EPOCH_LENGTH E)) = Some r
                 \<and> Sigma (Ts ! Suc i) = float_add E (Sigma (Ts ! i)) r))"
proof -
  from assms obtain T1 where 1: "payout E T = Inr T1"
    and 2: "resync_loop E cnt [0..<merge_length (winners T1)] T1 = Inr T'"
    by (auto simp: finalize_def split: sum.splits)
  from payout_Inr [OF 1] have r1: "rewards T1 = rewards T" by auto
  from 2 payout_winners [OF 1]
  have "resync_loop E cnt [0..<0 + merge_length (winners T)] T1 = Inr T'" by simp
  from resync_loop_chain [OF this] obtain Ts where
    Ts: "length Ts = Suc (merge_length (winners T))" "Ts ! 0 = T1"
      "Ts ! merge_length (winners T) = T'"
      "\<forall>i<merge_length (winners T). resync_step E cnt (0 + i) (Ts ! i) = Inr (Ts ! Suc i)
          \<and> rewards (Ts ! i) = rewards T1" by blast
  have "\<forall>i<merge_length (winners T).
           resync_step E cnt i (Ts ! i) = Inr (Ts ! Suc i)
           \<and> (\<exists>r. py_get (rewards T)
                      (int_truediv (resync_slot_id cnt i) (EPOCH_LENGTH E)) = Some r
                 \<and> Sigma (Ts ! Suc i) = float_add E (Sigma (Ts ! i)) r)"
  proof (intro allI impI)
    fix i assume "i < merge_length (winners T)"
    with Ts(4) have st: "resync_step E cnt i (Ts ! i) = Inr (Ts ! Suc i)"
      and rw: "rewards (Ts ! i) = rewards T1" by simp_all
    from resync_step_payee [OF st] rw r1
    have "\<exists>r. py_get (rewards T)
                      (int_truediv (resync_slot_id cnt i) (EPOCH_LENGTH E)) = Some r
                 \<and> Sigma (Ts ! Suc i) = float_add E (Sigma (Ts ! i)) r" by auto
    with st show "resync_step E cnt i (Ts ! i) = Inr (Ts ! Suc i)
           \<and> (\<exists>r. py_get (rewards T)
                      (int_truediv (resync_slot_id cnt i) (EPOCH_LENGTH E)) = Some r
                 \<and> Sigma (Ts ! Suc i) = float_add E (Sigma (Ts ! i)) r)" by simp
  qed
  with Ts(1,3) 1 Ts(2) show ?thesis by (intro exI [of _ Ts]) simp
qed

lemma slot_loop_winners:
  "slot_loop E hp cs s = Inr s' \<Longrightarrow>
     length (winners (fst s')) = length (winners (fst s)) + length cs"
proof (induction cs arbitrary: s)
  case Nil
  then show ?case by simp
next
  case (Cons c cs)
  then obtain s1 where 1: "slot E hp c s = Inr s1" and 2: "slot_loop E hp cs s1 = Inr s'"
    by (auto split: sum.splits)
  from 1 have "slot_body E hp c s = Inr s1" by (simp add: slot_Inr)
  from slot_body_frame(4) [OF this] Cons.IH [OF 2] show ?case by auto
qed

text \<open>The four-slot run in which \<^verbatim>\<open>winners\<close> ends as \<open>[1, 0, 0, 1]\<close>, evaluated. The issuance
  of epoch \<open>k\<close> is \<open>10 ^ k\<close> and every slot is an epoch.\<close>

lemma counting_run:
  "\<exists>T L. slot_loop (counting_env 1) False [0, 1, 2, 3] (counting_table, locals0) = Inr (T, L)
     \<and> winners T = [1, 0, 0, 1] \<and> rewards T = [1, 10, 100, 1000]
     \<and> Sigma T = 1311 \<and> darkies T = [0, 1]
     \<and> stake (counting_env 1) (objects T 0) = 1111
     \<and> stake (counting_env 1) (objects T 1) = 200"
  by (simp add: counting_env_def counting_table_def demo_objects_of_def engine_eval)


text \<open>The finalization of a slot 1 whose \<^verbatim>\<open>winners\<close> is \<open>[0, 1]\<close>, evaluated.\<close>

lemma demo_finalize:
  "\<exists>T'. finalize (demo_env 2 10) 1 (demo_won_table\<lparr>winners := [0, 1]\<rparr>) = Inr T'
     \<and> Sigma T' = 220"
  by (simp add: demo_env_def demo_won_table_def demo_won_objects_def engine_eval)

text \<open>
  Claim C4 (resync scan window). \<^verbatim>\<open>merge_length\<close> is the length of the longest run of
  entries other than 1 that ends just before the last entry of \<^verbatim>\<open>winners\<close>: it is at most
  the number of earlier entries, the \<open>merge_length\<close> entries before the last one are all
  different from 1, and the scan stopped either at the start of the sequence or at an
  entry equal to 1. After \<open>n\<close> slots of a run that started with \<^verbatim>\<open>winners\<close> empty,
  \<^verbatim>\<open>winners\<close> has \<open>n\<close> entries, so when slot \<open>cnt\<close> finalizes it has \<open>cnt + 1\<close> entries and
  the slot of offset \<open>i\<close>, \<^verbatim>\<open>count-(i+1)\<close>, is the index of the \<open>i\<close>-th entry of the window.
  The finalization is the payout followed by exactly \<open>merge_length\<close> resync steps, one
  for each offset, and the step of offset \<open>i\<close> adds to \<open>Sigma\<close> the reward of the epoch of
  its slot. In the run of four slots in which \<^verbatim>\<open>winners\<close> ends as \<open>[1, 0, 0, 1]\<close>, with an
  epoch per slot and the issuance \<open>10 ^ k\<close> in epoch \<open>k\<close>, \<open>Sigma\<close> ends as the airdrop 200
  plus the rewards 1 and 1000 of the two payouts plus the rewards 100 and 10 of slots 2
  and 1, each once: the scan at slot 3 resolved the slots 2 and 1 and no other.
\<close>

theorem resync_window:
  "merge_length ws = length (takeWhile (\<lambda>w. w \<noteq> 1) (rev (butlast ws)))
   \<and> merge_length ws \<le> length ws - 1
   \<and> (\<forall>k<merge_length ws. ws ! (length ws - 2 - k) \<noteq> 1)
   \<and> (merge_length ws < length ws - 1 \<longrightarrow> ws ! (length ws - 2 - merge_length ws) = 1)
   \<and> (length ws = Suc cnt \<longrightarrow>
        (\<forall>i<merge_length ws. resync_slot_id cnt i = int (length ws - 2 - i)))
   \<and> (winners T0 = [] \<and> slot_loop E hp [0..<n] (T0, L0) = Inr (Tn, Ln) \<longrightarrow>
        length (winners Tn) = n)
   \<and> (finalize E cnt T = Inr T' \<longrightarrow>
        (\<exists>Ts. length Ts = Suc (merge_length (winners T)) \<and> payout E T = Inr (Ts ! 0)
           \<and> Ts ! merge_length (winners T) = T'
           \<and> (\<forall>i<merge_length (winners T).
                 resync_step E cnt i (Ts ! i) = Inr (Ts ! Suc i)
                 \<and> (\<exists>r. py_get (rewards T)
                            (int_truediv (resync_slot_id cnt i) (EPOCH_LENGTH E)) = Some r
                       \<and> Sigma (Ts ! Suc i) = float_add E (Sigma (Ts ! i)) r))))
   \<and> merge_length [1, 0, 0, 1] = 2
   \<and> resync_slot_id 3 0 = 2 \<and> resync_slot_id 3 1 = 1
   \<and> (\<exists>T L. slot_loop (counting_env 1) False [0, 1, 2, 3] (counting_table, locals0) = Inr (T, L)
         \<and> winners T = [1, 0, 0, 1] \<and> rewards T = [1, 10, 100, 1000]
         \<and> Sigma counting_table = 200 \<and> Sigma T = 200 + 1 + 1000 + 100 + 10
         \<and> stake (counting_env 1) (objects counting_table 0) = 100
         \<and> stake (counting_env 1) (objects counting_table 1) = 100
         \<and> stake (counting_env 1) (objects T 0) = 100 + 1 + 1000 + 10
         \<and> stake (counting_env 1) (objects T 1) = 100 + 100)"
proof (intro conjI impI allI)
  show "merge_length ws = length (takeWhile (\<lambda>w. w \<noteq> 1) (rev (butlast ws)))"
    by (rule merge_length_takeWhile)
  show "merge_length ws \<le> length ws - 1" by (rule merge_length_le)
  show "ws ! (length ws - 2 - k) \<noteq> 1" if "k < merge_length ws" for k
    using that by (rule merge_length_nth)
  show "ws ! (length ws - 2 - merge_length ws) = 1" if "merge_length ws < length ws - 1"
    using that by (rule merge_length_stop)
  show "resync_slot_id cnt i = int (length ws - 2 - i)"
    if "length ws = Suc cnt" "i < merge_length ws" for i
    using that by (rule resync_slot_id_index)
  show "length (winners Tn) = n"
    if "winners T0 = [] \<and> slot_loop E hp [0..<n] (T0, L0) = Inr (Tn, Ln)"
    using that slot_loop_winners [of E hp "[0..<n]" "(T0, L0)" "(Tn, Ln)"] by simp
  show "\<exists>Ts. length Ts = Suc (merge_length (winners T)) \<and> payout E T = Inr (Ts ! 0)
           \<and> Ts ! merge_length (winners T) = T'
           \<and> (\<forall>i<merge_length (winners T).
                 resync_step E cnt i (Ts ! i) = Inr (Ts ! Suc i)
                 \<and> (\<exists>r. py_get (rewards T)
                            (int_truediv (resync_slot_id cnt i) (EPOCH_LENGTH E)) = Some r
                       \<and> Sigma (Ts ! Suc i) = float_add E (Sigma (Ts ! i)) r))"
    if "finalize E cnt T = Inr T'"
    using that by (rule finalize_chain)
  show "merge_length [1, 0, 0, 1] = 2" by (simp add: merge_length_def)
  show "resync_slot_id 3 0 = 2" "resync_slot_id 3 1 = 1" by (simp_all add: resync_slot_id_def)
  from counting_run obtain T L where
    "slot_loop (counting_env 1) False [0, 1, 2, 3] (counting_table, locals0) = Inr (T, L)"
    "winners T = [1, 0, 0, 1]" "rewards T = [1, 10, 100, 1000]" "Sigma T = 1311"
    "stake (counting_env 1) (objects T 0) = 1111" "stake (counting_env 1) (objects T 1) = 200"
    by blast
  moreover have "Sigma counting_table = 200"
    "stake (counting_env 1) (objects counting_table 0) = 100"
    "stake (counting_env 1) (objects counting_table 1) = 100"
    by (simp_all add: counting_table_def counting_env_def init_table_def add_darkie_def
        demo_objects_of_def)
  ultimately show "\<exists>T L. slot_loop (counting_env 1) False [0, 1, 2, 3] (counting_table, locals0) = Inr (T, L)
         \<and> winners T = [1, 0, 0, 1] \<and> rewards T = [1, 10, 100, 1000]
         \<and> Sigma counting_table = 200 \<and> Sigma T = 200 + 1 + 1000 + 100 + 10
         \<and> stake (counting_env 1) (objects counting_table 0) = 100
         \<and> stake (counting_env 1) (objects counting_table 1) = 100
         \<and> stake (counting_env 1) (objects T 0) = 100 + 1 + 1000 + 10
         \<and> stake (counting_env 1) (objects T 1) = 100 + 100"
    by (intro exI [of _ T] exI [of _ L]) simp
qed

theorem resync_window_witness:
  "merge_length [1, 0, 0, 1] = 2
   \<and> [1, 0, 0, 1::nat] ! (length [1, 0, 0, 1::nat] - 2 - 0) \<noteq> 1
   \<and> [1, 0, 0, 1::nat] ! (length [1, 0, 0, 1::nat] - 2 - 1) \<noteq> 1
   \<and> merge_length [1, 0, 0, 1] < length [1, 0, 0, 1::nat] - 1
   \<and> [1, 0, 0, 1::nat] ! (length [1, 0, 0, 1::nat] - 2 - merge_length [1, 0, 0, 1]) = 1
   \<and> length [1, 0, 0, 1::nat] = Suc 3
   \<and> resync_slot_id 3 0 = int (length [1, 0, 0, 1::nat] - 2 - 0)
   \<and> resync_slot_id 3 1 = int (length [1, 0, 0, 1::nat] - 2 - 1)
   \<and> winners counting_table = []
   \<and> (\<exists>T L. slot_loop (counting_env 1) False [0..<4] (counting_table, locals0) = Inr (T, L)
         \<and> length (winners T) = 4)
   \<and> (\<exists>T' Ts. finalize (demo_env 2 10) 1 (demo_won_table\<lparr>winners := [0, 1]\<rparr>) = Inr T'
         \<and> length Ts = 2
         \<and> payout (demo_env 2 10) (demo_won_table\<lparr>winners := [0, 1]\<rparr>) = Inr (Ts ! 0)
         \<and> resync_step (demo_env 2 10) 1 0 (Ts ! 0) = Inr (Ts ! 1) \<and> Ts ! 1 = T')"
proof -
  let ?ws = "[1, 0, 0, 1::nat]"
  let ?W = "demo_won_table\<lparr>winners := [0, 1]\<rparr>"
  have m: "merge_length ?ws = 2" by (simp add: merge_length_def)
  have w0: "winners counting_table = []"
    by (simp add: counting_table_def init_table_def add_darkie_def)
  have u: "[0..<4] = [0, 1, 2, 3::nat]" by (simp add: upt_conv_Cons)
  from counting_run obtain T L where
    run: "slot_loop (counting_env 1) False [0..<4] (counting_table, locals0) = Inr (T, L)"
    unfolding u by blast
  from demo_finalize obtain T' where fin: "finalize (demo_env 2 10) 1 ?W = Inr T'" by blast
  have mw: "merge_length (winners ?W) = 1" by (simp add: merge_length_def)
  note inst = resync_window [where ws = ?ws and cnt = 3 and E = "counting_env 1" and hp = False
      and ?T0.0 = counting_table and ?L0.0 = locals0 and n = 4 and Tn = T and Ln = L]
  from inst have a: "\<forall>k<merge_length ?ws. ?ws ! (length ?ws - 2 - k) \<noteq> 1"
    and b: "merge_length ?ws < length ?ws - 1 \<longrightarrow> ?ws ! (length ?ws - 2 - merge_length ?ws) = 1"
    and c: "length ?ws = Suc 3 \<longrightarrow> (\<forall>i<merge_length ?ws. resync_slot_id 3 i = int (length ?ws - 2 - i))"
    and d: "winners counting_table = []
        \<and> slot_loop (counting_env 1) False [0..<4] (counting_table, locals0) = Inr (T, L)
        \<longrightarrow> length (winners T) = 4"
    by blast+
  have lt: "merge_length ?ws < length ?ws - 1" using m by simp
  from b lt have b': "?ws ! (length ?ws - 2 - merge_length ?ws) = 1" by blast
  have i01: "(0::nat) < merge_length ?ws" "(1::nat) < merge_length ?ws" using m by simp_all
  with a have a': "?ws ! (length ?ws - 2 - 0) \<noteq> 1" "?ws ! (length ?ws - 2 - 1) \<noteq> 1" by blast+
  have len: "length ?ws = Suc 3" by simp
  with c i01 have c': "resync_slot_id 3 0 = int (length ?ws - 2 - 0)"
    "resync_slot_id 3 1 = int (length ?ws - 2 - 1)" by blast+
  from d w0 run have d': "length (winners T) = 4" by blast
  from resync_window [where E = "demo_env 2 10" and cnt = 1 and T = ?W and T' = T'] fin
  obtain Ts where Ts: "length Ts = Suc (merge_length (winners ?W))"
    "payout (demo_env 2 10) ?W = Inr (Ts ! 0)" "Ts ! merge_length (winners ?W) = T'"
    "\<forall>i<merge_length (winners ?W). resync_step (demo_env 2 10) 1 i (Ts ! i) = Inr (Ts ! Suc i)
       \<and> (\<exists>r. py_get (rewards ?W)
                  (int_truediv (resync_slot_id 1 i) (EPOCH_LENGTH (demo_env 2 10))) = Some r
             \<and> Sigma (Ts ! Suc i) = float_add (demo_env 2 10) (Sigma (Ts ! i)) r)"
    by blast
  from Ts(4) mw have st: "resync_step (demo_env 2 10) 1 0 (Ts ! 0) = Inr (Ts ! 1)" by simp
  from Ts(1,3) mw have l2: "length Ts = 2" "Ts ! 1 = T'" by simp_all
  have e1: "\<exists>T L. slot_loop (counting_env 1) False [0..<4] (counting_table, locals0) = Inr (T, L)
         \<and> length (winners T) = 4" using run d' by blast
  have e2: "\<exists>T' Ts. finalize (demo_env 2 10) 1 ?W = Inr T' \<and> length Ts = 2
         \<and> payout (demo_env 2 10) ?W = Inr (Ts ! 0)
         \<and> resync_step (demo_env 2 10) 1 0 (Ts ! 0) = Inr (Ts ! 1) \<and> Ts ! 1 = T'"
    using fin l2 Ts(2) st by blast
  from m a' lt b' len c' w0 e1 e2 show ?thesis by blast
qed

section \<open>The search endpoint\<close>

lemma search_block_Inl:
  "search_block S h = Inl e \<longleftrightarrow>
     get_block S h = Inl e
     \<or> (\<exists>b. get_block S h = Inr b \<and> get_block_transactions S h = Inl e)
     \<or> (\<exists>b ts. get_block S h = Inr b \<and> get_block_transactions S h = Inr ts
           \<and> render_template S (Block_html b ts) = Inl e)"
  by (auto simp: search_block_def split: sum.splits)

lemma search_transaction_Inl:
  "search_transaction S h = Inl e \<longleftrightarrow>
     get_transaction S h = Inl e
     \<or> (\<exists>x. get_transaction S h = Inr x \<and> render_template S (Transaction_html x) = Inl e)"
  by (auto simp: search_transaction_def split: sum.splits)

text \<open>
  Claim C9 (search fallback), as the code has it. The search endpoint first attempts
  the block lookup (the block, its transactions, and the rendering of the block page) and
  answers with the block page when all of it succeeds. When any of the three raises an
  \<^verbatim>\<open>Exception\<close>, it falls back to the transaction lookup and answers with the transaction
  page when the lookup and the rendering succeed; an exception of the block lookup that
  is not an \<^verbatim>\<open>Exception\<close> is raised as it is. When the transaction lookup fails too,
  \<^verbatim>\<open>search\<close> does not handle the exception: it is raised to the caller, the framework,
  whose handlers answer with the not-found page and status 404 when the exception is the
  HTTP error 404, and with the page and status 500 when it is an exception other than an
  HTTP error.
\<close>

theorem search_fallback_behaviour:
  "(get_block S h = Inr b \<and> get_block_transactions S h = Inr ts
      \<and> render_template S (Block_html b ts) = Inr page
      \<longrightarrow> search S h = Inr page \<and> search_response S h = Response page 200)
   \<and> ((get_block S h = Inl e
         \<or> (\<exists>b. get_block S h = Inr b \<and> get_block_transactions S h = Inl e)
         \<or> (\<exists>b ts. get_block S h = Inr b \<and> get_block_transactions S h = Inr ts
               \<and> render_template S (Block_html b ts) = Inl e))
        \<longrightarrow> (\<not> is_Exception e \<longrightarrow> search S h = Inl e)
          \<and> (is_Exception e \<longrightarrow>
               (get_transaction S h = Inr x \<and> render_template S (Transaction_html x) = Inr page
                  \<longrightarrow> search S h = Inr page)
               \<and> (get_transaction S h = Inl e'
                    \<or> (\<exists>x. get_transaction S h = Inr x
                          \<and> render_template S (Transaction_html x) = Inl e')
                  \<longrightarrow> search S h = Inl e'
                    \<and> (e' = HTTPException 404 \<and> render_template S Html_404 = Inr p
                         \<longrightarrow> search_response S h = Response p 404)
                    \<and> (e' = OtherException msg \<and> render_template S Html_500 = Inr p
                         \<longrightarrow> search_response S h = Response p 500))))"
proof (intro conjI impI)
  assume "get_block S h = Inr b \<and> get_block_transactions S h = Inr ts
      \<and> render_template S (Block_html b ts) = Inr page"
  then show "search S h = Inr page" "search_response S h = Response page 200"
    by (simp_all add: search_response_def search_def search_block_def)
next
  assume f: "get_block S h = Inl e
         \<or> (\<exists>b. get_block S h = Inr b \<and> get_block_transactions S h = Inl e)
         \<or> (\<exists>b ts. get_block S h = Inr b \<and> get_block_transactions S h = Inr ts
               \<and> render_template S (Block_html b ts) = Inl e)"
  then have sb: "search_block S h = Inl e" by (simp add: search_block_Inl)
  show "search S h = Inl e" if "\<not> is_Exception e"
    using that sb by (simp add: search_def)
  show "search S h = Inr page"
    if "is_Exception e"
      "get_transaction S h = Inr x \<and> render_template S (Transaction_html x) = Inr page"
    using that sb by (simp add: search_def search_transaction_def)
  assume ex: "is_Exception e"
  assume t: "get_transaction S h = Inl e'
       \<or> (\<exists>x. get_transaction S h = Inr x \<and> render_template S (Transaction_html x) = Inl e')"
  then have st: "search_transaction S h = Inl e'" by (simp add: search_transaction_Inl)
  with sb ex show s: "search S h = Inl e'" by (simp add: search_def)
  show "search_response S h = Response p 404"
    if "e' = HTTPException 404 \<and> render_template S Html_404 = Inr p"
    using that s
    by (simp add: search_response_def handle_user_exception_def run_handler_def
        page_not_found_def)
  show "search_response S h = Response p 500"
    if "e' = OtherException msg \<and> render_template S Html_500 = Inr p"
    using that s
    by (simp add: search_response_def handle_user_exception_def handle_exception_def
        page_not_found_500_def)
qed

theorem search_fallback_behaviour_witness:
  "get_block unknown_hash_rpc ''00ff'' = Inl (HTTPException 404)
   \<and> is_Exception (HTTPException 404)
   \<and> get_transaction unknown_hash_rpc ''00ff'' = Inl (HTTPException 404)
   \<and> render_template unknown_hash_rpc Html_404 = Inr Html_404
   \<and> search unknown_hash_rpc ''00ff'' = Inl (HTTPException 404)
   \<and> search_response unknown_hash_rpc ''00ff'' = Response Html_404 404
   \<and> get_block transaction_rpc ''00ff'' = Inl (HTTPException 404)
   \<and> get_transaction transaction_rpc ''00ff'' = Inr ()
   \<and> render_template transaction_rpc (Transaction_html ()) = Inr (Transaction_html ())
   \<and> search transaction_rpc ''00ff'' = Inr (Transaction_html ())
   \<and> get_block block_rpc ''00ff'' = Inr ()
   \<and> get_block_transactions block_rpc ''00ff'' = Inr ()
   \<and> render_template block_rpc (Block_html () ()) = Inr (Block_html () ())
   \<and> search block_rpc ''00ff'' = Inr (Block_html () ())
   \<and> search_response block_rpc ''00ff'' = Response (Block_html () ()) 200"
proof -
  have u: "get_block unknown_hash_rpc ''00ff'' = Inl (HTTPException 404)"
    "get_transaction unknown_hash_rpc ''00ff'' = Inl (HTTPException 404)"
    "render_template unknown_hash_rpc Html_404 = Inr Html_404"
    by (simp_all add: unknown_hash_rpc_def)
  have t: "get_block transaction_rpc ''00ff'' = Inl (HTTPException 404)"
    "get_transaction transaction_rpc ''00ff'' = Inr ()"
    "render_template transaction_rpc (Transaction_html ()) = Inr (Transaction_html ())"
    by (simp_all add: transaction_rpc_def)
  have b: "get_block block_rpc ''00ff'' = Inr ()"
    "get_block_transactions block_rpc ''00ff'' = Inr ()"
    "render_template block_rpc (Block_html () ()) = Inr (Block_html () ())"
    by (simp_all add: block_rpc_def)
  have ex: "is_Exception (HTTPException 404)" by (simp add: is_Exception_def)
  from search_fallback_behaviour [where S = unknown_hash_rpc and h = "''00ff''"
      and e = "HTTPException 404" and e' = "HTTPException 404" and p = Html_404] u ex
  have 1: "search unknown_hash_rpc ''00ff'' = Inl (HTTPException 404)"
    "search_response unknown_hash_rpc ''00ff'' = Response Html_404 404" by blast+
  from search_fallback_behaviour [where S = transaction_rpc and h = "''00ff''"
      and e = "HTTPException 404" and x = "()" and page = "Transaction_html ()"] t ex
  have 2: "search transaction_rpc ''00ff'' = Inr (Transaction_html ())" by blast
  from search_fallback_behaviour [where S = block_rpc and h = "''00ff''"
      and b = "()" and ts = "()" and page = "Block_html () ()"] b
  have 3: "search block_rpc ''00ff'' = Inr (Block_html () ())"
    "search_response block_rpc ''00ff'' = Response (Block_html () ()) 200" by blast+
  from u t b ex 1 2 3 show ?thesis by blast
qed

text \<open>
  The claim as the spec states it fails: when the node cannot be reached both lookups
  raise, \<^verbatim>\<open>search\<close> raises the exception to its caller, and the client is answered with
  the page and status 500, not with the not-found page.
\<close>

theorem search_not_found_counterexample:
  "search unreachable_rpc ''00ff'' = Inl (OtherException ''ConnectionRefusedError'')
   \<and> search_response unreachable_rpc ''00ff'' = Response Html_500 500
   \<and> search_response unreachable_rpc ''00ff'' \<noteq> Response Html_404 404"
  by (simp add: search_def search_block_def search_transaction_def search_response_def
      unreachable_rpc_def is_Exception_def handle_user_exception_def handle_exception_def
      page_not_found_500_def)

end
